theory Spec2Isabelle
  imports Complex_Main "HOL-Library.Finite_Map"
begin

section \<open>Go values, panics and the process state\<close>

text \<open>
  A value decoded by \<^verbatim>\<open>encoding/json\<close> into \<^verbatim>\<open>interface{}\<close> has one of six dynamic types:
  nil, bool, float64, string, a slice or a map with string keys. The type \<open>'f\<close> stands for
  float64: the embedding only uses its zero value \<open>0.0\<close> and its addition \<open>+=\<close>, so it is
  a type of the classes \<open>zero\<close> and \<open>plus\<close>, which assume no law of arithmetic
  (float64 addition rounds and is not associative). Concrete examples are evaluated
  at \<open>real\<close>, on small integers, where float64 addition is exact.
\<close>

datatype 'f iface =
    VNil
  | VBool bool
  | VFloat64 'f
  | VString string
  | VSlice "'f iface list"
  | VMap "(string, 'f iface) fmap"

text \<open>
  \<^verbatim>\<open>map[string]interface{}\<close>. Reading a nil map behaves as reading an empty one, so
  both are \<open>fmempty\<close>.
\<close>

type_synonym 'f gomap = "(string, 'f iface) fmap"

text \<open>Indexing a map: a missing key gives the zero value, the nil interface.\<close>

definition index :: "'f gomap \<Rightarrow> string \<Rightarrow> 'f iface" where
  "index m k = (case fmlookup m k of None \<Rightarrow> VNil | Some v \<Rightarrow> v)"

datatype err = DoError | DecodeError | ParseDurationError

datatype runtime_error = NilDereference | InterfaceConversion | IndexOutOfRange

text \<open>A panic is either \<^verbatim>\<open>panic(err)\<close> of the program or a run-time error of Go.\<close>

datatype panic = Panic err | RuntimeError runtime_error

text \<open>The single-result type assertions \<^verbatim>\<open>x.(T)\<close>, which panic on any other dynamic type.\<close>

fun assert_map :: "'f iface \<Rightarrow> panic + 'f gomap" where
  "assert_map (VMap m) = Inr m"
| "assert_map _ = Inl (RuntimeError InterfaceConversion)"

fun assert_float64 :: "'f iface \<Rightarrow> panic + 'f" where
  "assert_float64 (VFloat64 x) = Inr x"
| "assert_float64 _ = Inl (RuntimeError InterfaceConversion)"

fun assert_string :: "'f iface \<Rightarrow> panic + string" where
  "assert_string (VString s) = Inr s"
| "assert_string _ = Inl (RuntimeError InterfaceConversion)"

text \<open>The two-result form \<^verbatim>\<open>s, _ := x.(string)\<close>: the zero value \<open>""\<close> instead of a panic.\<close>

fun assert_string_ok :: "'f iface \<Rightarrow> string" where
  "assert_string_ok (VString s) = s"
| "assert_string_ok _ = []"

fun is_float64 :: "'f iface \<Rightarrow> bool" where
  "is_float64 (VFloat64 x) = True"
| "is_float64 _ = False"

subsection \<open>The metric vectors (lines 22--194)\<close>

datatype metric =
    connectionsTotal
  | channelsTotal
  | queuesTotal
  | consumersTotal
  | exchangesTotal
  | messagesTotal
  | messagesCounter
  | messagesReadyCounter
  | messagesUnacknowledgedCounter
  | messageStatsPublishCounter
  | messageStatsAckCounter
  | messageStatsDeliverCounter
  | messageStatsConfirmCounter
  | messageStatsRedeliverCounter
  | messageStatsDeliverGetCounter
  | messageStatsDeliverNoAckCounter

datatype vec_kind = GaugeVec | CounterVec

fun kind :: "metric \<Rightarrow> vec_kind" where
  "kind connectionsTotal = GaugeVec"
| "kind channelsTotal = GaugeVec"
| "kind queuesTotal = GaugeVec"
| "kind consumersTotal = GaugeVec"
| "kind exchangesTotal = GaugeVec"
| "kind messagesTotal = GaugeVec"
| "kind _ = CounterVec"

text \<open>The \<^verbatim>\<open>Subsystem\<close> option of each vector (empty where the source gives none).\<close>

fun opts_Subsystem :: "metric \<Rightarrow> string" where
  "opts_Subsystem messagesCounter = ''messages''"
| "opts_Subsystem messagesReadyCounter = ''messages''"
| "opts_Subsystem messagesUnacknowledgedCounter = ''messages''"
| "opts_Subsystem messageStatsPublishCounter = ''message_stats''"
| "opts_Subsystem messageStatsAckCounter = ''message_stats''"
| "opts_Subsystem messageStatsDeliverCounter = ''message_stats''"
| "opts_Subsystem messageStatsConfirmCounter = ''message_stats''"
| "opts_Subsystem messageStatsRedeliverCounter = ''message_stats''"
| "opts_Subsystem messageStatsDeliverGetCounter = ''message_stats''"
| "opts_Subsystem messageStatsDeliverNoAckCounter = ''message_stats''"
| "opts_Subsystem _ = []"

text \<open>The \<^verbatim>\<open>Name\<close> option of each vector.\<close>

fun opts_Name :: "metric \<Rightarrow> string" where
  "opts_Name connectionsTotal = ''connections_total''"
| "opts_Name channelsTotal = ''channels_total''"
| "opts_Name queuesTotal = ''queues_total''"
| "opts_Name consumersTotal = ''consumers_total''"
| "opts_Name exchangesTotal = ''exchanges_total''"
| "opts_Name messagesTotal = ''messages_total''"
| "opts_Name messagesCounter = ''messages''"
| "opts_Name messagesReadyCounter = ''messages_ready''"
| "opts_Name messagesUnacknowledgedCounter = ''messages_unacknowledged''"
| "opts_Name messageStatsPublishCounter = ''messages_published''"
| "opts_Name messageStatsAckCounter = ''messages_acked''"
| "opts_Name messageStatsDeliverCounter = ''messages_delivered''"
| "opts_Name messageStatsConfirmCounter = ''messages_confirmed''"
| "opts_Name messageStatsRedeliverCounter = ''messages_redelivered''"
| "opts_Name messageStatsDeliverGetCounter = ''messages_delivered_get''"
| "opts_Name messageStatsDeliverNoAckCounter = ''messages_delivered_no_ack''"

text \<open>
  The registry of the Prometheus client: the children of all vectors, one per
  (vector, label value). \<^verbatim>\<open>vec.WithLabelValues(l).Set(v)\<close> is a call into the client
  library, which is not part of the repository; as the library documents it, it creates
  the child for \<open>l\<close> if there is none and stores \<open>v\<close> in it, for a gauge and (in the
  library version the program compiles against) for a counter alike. The registry below
  holds what the vectors hold. Which of them the endpoint shows is decided by \<^verbatim>\<open>init\<close>
  (lines 391--407), which registers every vector but \<^verbatim>\<open>messagesUnacknowledgedCounter\<close>, and
  the library shows each under its namespace, subsystem and \<^verbatim>\<open>Name\<close> joined by underscores.
\<close>

type_synonym 'f registry = "metric \<times> string \<Rightarrow> 'f option"

definition WithLabelValues_Set :: "metric \<Rightarrow> string \<Rightarrow> 'f \<Rightarrow> 'f registry \<Rightarrow> 'f registry" where
  "WithLabelValues_Set vec l v reg = reg((vec, l) \<mapsto> v)"

datatype log_entry = log_Error err | log_Warn err

text \<open>
  What the functions below change: the registry, the log, and the arguments of the
  calls of \<^verbatim>\<open>time.Sleep\<close> so far (in nanoseconds, as \<^verbatim>\<open>time.Duration\<close> counts).
\<close>

record 'f state =
  registry :: "'f registry"
  logged :: "log_entry list"
  slept :: "int list"

definition Second :: int where
  "Second = 1000000000"

definition Sleep :: "int \<Rightarrow> 'f state \<Rightarrow> 'f state" where
  "Sleep dt st = st\<lparr>slept := slept st @ [dt]\<rparr>"

section \<open>The network and the JSON decoder\<close>

text \<open>
  What a request meets: \<^verbatim>\<open>http.NewRequest\<close> fails (it then returns a nil request),
  \<^verbatim>\<open>client.Do\<close> fails, or a response arrives whose body is a JSON document or is not one.
  The status code is not looked at by the program. A network maps the URL and the
  credentials of a request to its outcome.

  A body is one of three things. \<open>Malformed\<close>: no JSON document can be read from it.
  \<open>Document v\<close>: a JSON document all of whose numbers are float64 values; \<open>v\<close> is the
  value it denotes. \<open>DocumentOutOfRange v\<close>: a JSON document in which some number lies
  outside the range of float64 (such as \<^verbatim>\<open>1e999\<close>); the decoder stores nil for each such
  number and goes on, and \<open>v\<close> is the value it builds that way.
\<close>

datatype 'f body = Malformed | Document "'f iface" | DocumentOutOfRange "'f iface"

datatype 'f http = NewRequestFails | DoFails | Responds "'f body"

type_synonym 'f network = "string \<Rightarrow> string \<Rightarrow> string \<Rightarrow> 'f http"

text \<open>
  \<^verbatim>\<open>Decoder.Decode\<close> of \<^verbatim>\<open>encoding/json\<close> (a library, not part of the repository) into a
  nil \<^verbatim>\<open>map[string]interface{}\<close>: an object fills the map, \<^verbatim>\<open>null\<close> leaves it nil without
  an error, every other document and every malformed body leaves it nil and returns an
  error. An object with a number outside the range of float64 fills the map too (with nil
  in the place of that number), and \<^verbatim>\<open>Decode\<close> returns the error it saved for the number.
\<close>

fun Decode_map :: "'f body \<Rightarrow> 'f gomap \<times> err option" where
  "Decode_map (Document (VMap m)) = (m, None)"
| "Decode_map (Document VNil) = (fmempty, None)"
| "Decode_map (DocumentOutOfRange (VMap m)) = (m, Some DecodeError)"
| "Decode_map _ = (fmempty, Some DecodeError)"

text \<open>
  \<^verbatim>\<open>Decode\<close> into a nil \<^verbatim>\<open>[]map[string]interface{}\<close>: an array gives one map per
  element, where an element that is neither an object nor \<^verbatim>\<open>null\<close> leaves its map nil
  and makes \<^verbatim>\<open>Decode\<close> return an error after it has decoded the rest; \<^verbatim>\<open>null\<close> leaves the
  slice nil without an error; everything else leaves it nil with an error. An array with
  a number outside the range of float64 is decoded like any array, with nil in the place
  of that number, and \<^verbatim>\<open>Decode\<close> returns an error.
\<close>

fun element_map :: "'f iface \<Rightarrow> 'f gomap" where
  "element_map (VMap m) = m"
| "element_map _ = fmempty"

fun element_fits :: "'f iface \<Rightarrow> bool" where
  "element_fits (VMap m) = True"
| "element_fits VNil = True"
| "element_fits _ = False"

fun Decode_maps :: "'f body \<Rightarrow> 'f gomap list \<times> err option" where
  "Decode_maps (Document (VSlice xs)) =
     (map element_map xs, if list_all element_fits xs then None else Some DecodeError)"
| "Decode_maps (Document VNil) = ([], None)"
| "Decode_maps (DocumentOutOfRange (VSlice xs)) = (map element_map xs, Some DecodeError)"
| "Decode_maps _ = ([], Some DecodeError)"

section \<open>The program\<close>

record Node =
  Name :: string
  Url :: string
  Uname :: string
  Password :: string
  Interval :: string

record Config =
  Nodes :: "Node list option"
  Port :: string
  Interval :: string

text \<open>
  \<^verbatim>\<open>sendApiRequest\<close> (lines 210--222). The error of \<^verbatim>\<open>http.NewRequest\<close> is overwritten
  unread, so a nil request reaches \<^verbatim>\<open>req.SetBasicAuth\<close>, which dereferences it.
\<close>

definition sendApiRequest ::
  "'f network \<Rightarrow> string \<Rightarrow> string \<Rightarrow> string \<Rightarrow> string \<Rightarrow> 'f state \<Rightarrow> (panic + 'f body) \<times> 'f state" where
  "sendApiRequest net hostname username password query st =
     (case net (hostname @ query) username password of
        NewRequestFails \<Rightarrow> (Inl (RuntimeError NilDereference), st)
      | DoFails \<Rightarrow> (Inl (Panic DoError), st\<lparr>logged := logged st @ [log_Error DoError]\<rparr>)
      | Responds b \<Rightarrow> (Inr b, st))"

text \<open>\<^verbatim>\<open>decodeObj\<close> (lines 280--287) and \<^verbatim>\<open>decodeObjArray\<close> (lines 289--296).\<close>

definition decodeObj :: "'f body \<Rightarrow> 'f state \<Rightarrow> 'f gomap \<times> 'f state" where
  "decodeObj d st =
     (case Decode_map d of
        (response, Some e) \<Rightarrow> (response, st\<lparr>logged := logged st @ [log_Error e]\<rparr>)
      | (response, None) \<Rightarrow> (response, st))"

definition decodeObjArray :: "'f body \<Rightarrow> 'f state \<Rightarrow> 'f gomap list \<times> 'f state" where
  "decodeObjArray d st =
     (case Decode_maps d of
        (response, Some e) \<Rightarrow> (response, st\<lparr>logged := logged st @ [log_Error e]\<rparr>)
      | (response, None) \<Rightarrow> (response, st))"

text \<open>
  The three loops of \<^verbatim>\<open>getOverview\<close> fill a local \<^verbatim>\<open>map[string]float64\<close>, here a map
  \<open>string \<rightharpoonup> 'f\<close>. A \<^verbatim>\<open>range\<close> over a Go map visits every entry once, in an order the
  language leaves open, and the entries have distinct keys. The first loop (lines
  229--231) asserts \<^verbatim>\<open>v.(float64)\<close> on every entry: it panics if and only if some entry
  is not a float64, and otherwise stores them all. The other two (lines 234--239 and
  242--247) store the entries that are float64 and pass over the rest.
\<close>

definition range_assert :: "'f gomap \<Rightarrow> panic + (string \<rightharpoonup> 'f)" where
  "range_assert m =
     (if fmpred (\<lambda>k v. is_float64 v) m
      then Inr (\<lambda>k. case fmlookup m k of Some (VFloat64 x) \<Rightarrow> Some x | _ \<Rightarrow> None)
      else Inl (RuntimeError InterfaceConversion))"

definition range_switch :: "'f gomap \<Rightarrow> (string \<rightharpoonup> 'f)" where
  "range_switch m = (\<lambda>k. case fmlookup m k of Some (VFloat64 x) \<Rightarrow> Some x | _ \<Rightarrow> None)"

text \<open>Indexing a \<^verbatim>\<open>map[string]float64\<close>: a missing key gives the zero value \<open>0.0\<close>.\<close>

definition float64_at :: "(string \<rightharpoonup> 'f::zero) \<Rightarrow> string \<Rightarrow> 'f" where
  "float64_at m k = (case m k of None \<Rightarrow> 0 | Some x \<Rightarrow> x)"

text \<open>
  Lines 228--265 of \<^verbatim>\<open>getOverview\<close>: what it does with the decoded response. The fifteen
  \<^verbatim>\<open>Set\<close> calls are nested in the order of the source: the innermost is the first (line
  251, \<^verbatim>\<open>channelsTotal\<close>), the outermost the last (line 265).
\<close>

definition getOverview_map :: "'f::zero gomap \<Rightarrow> 'f state \<Rightarrow> (panic + unit) \<times> 'f state" where
  "getOverview_map response st =
     (case assert_map (index response ''object_totals'') of
        Inl p \<Rightarrow> (Inl p, st)
      | Inr ot \<Rightarrow>
     (case range_assert ot of
        Inl p \<Rightarrow> (Inl p, st)
      | Inr objectTotals \<Rightarrow>
     (case assert_map (index response ''queue_totals'') of
        Inl p \<Rightarrow> (Inl p, st)
      | Inr qt \<Rightarrow>
     (case assert_map (index response ''message_stats'') of
        Inl p \<Rightarrow> (Inl p, st)
      | Inr ms \<Rightarrow>
        let queueTotals = range_switch qt;
            messageStats = range_switch ms;
            nodename = assert_string_ok (index response ''node'')
        in (Inr (), st\<lparr>registry :=
             (WithLabelValues_Set messageStatsDeliverNoAckCounter nodename (float64_at messageStats ''deliver_no_ack'')
             (WithLabelValues_Set messageStatsDeliverGetCounter nodename (float64_at messageStats ''deliver_get'')
             (WithLabelValues_Set messageStatsAckCounter nodename (float64_at messageStats ''ack'')
             (WithLabelValues_Set messageStatsPublishCounter nodename (float64_at messageStats ''publish'')
             (WithLabelValues_Set messageStatsDeliverCounter nodename (float64_at messageStats ''deliver'')
             (WithLabelValues_Set messageStatsConfirmCounter nodename (float64_at messageStats ''confirm'')
             (WithLabelValues_Set messageStatsRedeliverCounter nodename (float64_at messageStats ''redeliver'')
             (WithLabelValues_Set messagesUnacknowledgedCounter nodename (float64_at queueTotals ''messages_unacknowledged'')
             (WithLabelValues_Set messagesReadyCounter nodename (float64_at queueTotals ''messages_ready'')
             (WithLabelValues_Set messagesCounter nodename (float64_at queueTotals ''messages'')
             (WithLabelValues_Set exchangesTotal nodename (float64_at objectTotals ''exchanges'')
             (WithLabelValues_Set queuesTotal nodename (float64_at objectTotals ''queues'')
             (WithLabelValues_Set consumersTotal nodename (float64_at objectTotals ''consumers'')
             (WithLabelValues_Set connectionsTotal nodename (float64_at objectTotals ''connections'')
             (WithLabelValues_Set channelsTotal nodename (float64_at objectTotals ''channels'')
               (registry st))))))))))))))))\<rparr>)))))"

text \<open>\<^verbatim>\<open>getOverview\<close> (lines 224--266).\<close>

definition getOverview ::
  "'f::zero network \<Rightarrow> string \<Rightarrow> string \<Rightarrow> string \<Rightarrow> 'f state \<Rightarrow> (panic + unit) \<times> 'f state" where
  "getOverview net hostname username password st =
     (case sendApiRequest net hostname username password ''/api/overview'' st of
        (Inl p, st1) \<Rightarrow> (Inl p, st1)
      | (Inr decoder, st1) \<Rightarrow>
          (case decodeObj decoder st1 of (response, st2) \<Rightarrow> getOverview_map response st2))"

text \<open>The loop of \<^verbatim>\<open>getNumberOfMessages\<close> (lines 274--276), from the running total.\<close>

fun sum_messages :: "'f::plus gomap list \<Rightarrow> 'f \<Rightarrow> panic + 'f" where
  "sum_messages [] total_messages = Inr total_messages"
| "sum_messages (v # vs) total_messages =
     (case assert_float64 (index v ''messages'') of
        Inl p \<Rightarrow> Inl p
      | Inr x \<Rightarrow> sum_messages vs (total_messages + x))"

text \<open>
  Lines 271--277 of \<^verbatim>\<open>getNumberOfMessages\<close>. Indexing element 0 of an empty (or nil)
  slice is the run-time panic ``index out of range''.
\<close>

definition getNumberOfMessages_map ::
  "'f::{zero,plus} gomap list \<Rightarrow> 'f state \<Rightarrow> (panic + unit) \<times> 'f state" where
  "getNumberOfMessages_map response st =
     (case response of
        [] \<Rightarrow> (Inl (RuntimeError IndexOutOfRange), st)
      | r0 # _ \<Rightarrow>
         (case assert_string (index r0 ''node'') of
            Inl p \<Rightarrow> (Inl p, st)
          | Inr nodename \<Rightarrow>
             (case sum_messages response 0 of
                Inl p \<Rightarrow> (Inl p, st)
              | Inr total_messages \<Rightarrow>
                 (Inr (), st\<lparr>registry :=
                    WithLabelValues_Set messagesTotal nodename total_messages (registry st)\<rparr>))))"

text \<open>\<^verbatim>\<open>getNumberOfMessages\<close> (lines 268--278).\<close>

definition getNumberOfMessages ::
  "'f::{zero,plus} network \<Rightarrow> string \<Rightarrow> string \<Rightarrow> string \<Rightarrow> 'f state \<Rightarrow> (panic + unit) \<times> 'f state" where
  "getNumberOfMessages net hostname username password st =
     (case sendApiRequest net hostname username password ''/api/queues'' st of
        (Inl p, st1) \<Rightarrow> (Inl p, st1)
      | (Inr decoder, st1) \<Rightarrow>
          (case decodeObjArray decoder st1 of (response, st2) \<Rightarrow> getNumberOfMessages_map response st2))"

text \<open>
  \<^verbatim>\<open>updateNodesStats\<close> (lines 298--306): the nodes, in order, for which a goroutine
  running \<^verbatim>\<open>runRequestLoop\<close> is started. \<^verbatim>\<open>config.Nodes\<close> is a pointer, nil when the
  configuration has no \<^verbatim>\<open>nodes\<close>.
\<close>

definition updateNodesStats :: "Config \<Rightarrow> panic + Node list" where
  "updateNodesStats config =
     (case Nodes config of
        None \<Rightarrow> Inl (RuntimeError NilDereference)
      | Some nodes \<Rightarrow>
          Inr (map (\<lambda>node. if length (Node.Interval node) = 0
                           then node\<lparr>Node.Interval := Config.Interval config\<rparr>
                           else node) nodes))"

text \<open>
  The body of \<^verbatim>\<open>requestData\<close> (lines 316--324). \<^verbatim>\<open>time.ParseDuration\<close> is a library
  function and a parameter here: \<open>None\<close> is its error.
\<close>

definition requestData_body ::
  "(string \<Rightarrow> int option) \<Rightarrow> 'f::{zero,plus} network \<Rightarrow> Node \<Rightarrow> 'f state \<Rightarrow> (panic + unit) \<times> 'f state" where
  "requestData_body ParseDuration net node st =
     (case getOverview net (Url node) (Uname node) (Password node) st of
        (Inl p, st1) \<Rightarrow> (Inl p, st1)
      | (Inr _, st1) \<Rightarrow>
     (case getNumberOfMessages net (Url node) (Uname node) (Password node) st1 of
        (Inl p, st2) \<Rightarrow> (Inl p, st2)
      | (Inr _, st2) \<Rightarrow>
         (case ParseDuration (Node.Interval node) of
            None \<Rightarrow> (Inr (), Sleep (30 * Second) (st2\<lparr>logged := logged st2 @ [log_Warn ParseDurationError]\<rparr>))
          | Some dt \<Rightarrow> (Inr (), Sleep dt st2))))"

text \<open>
  The deferred function of \<^verbatim>\<open>requestData\<close> (lines 309--314): it runs when the body
  returns or panics; \<^verbatim>\<open>recover()\<close> is non-nil exactly when the body panicked (every
  panic value above is non-nil), and the function then returns normally.
\<close>

definition deferred_recover :: "(panic + unit) \<times> 'f state \<Rightarrow> (panic + unit) \<times> 'f state" where
  "deferred_recover r =
     (case r of
        (Inl p, st) \<Rightarrow> (Inr (), Sleep (10 * Second) st)
      | (Inr u, st) \<Rightarrow> (Inr u, st))"

text \<open>\<^verbatim>\<open>requestData\<close> (lines 308--325).\<close>

definition requestData ::
  "(string \<Rightarrow> int option) \<Rightarrow> 'f::{zero,plus} network \<Rightarrow> Node \<Rightarrow> 'f state \<Rightarrow> (panic + unit) \<times> 'f state" where
  "requestData ParseDuration net node st =
     deferred_recover (requestData_body ParseDuration net node st)"

text \<open>
  \<^verbatim>\<open>runRequestLoop\<close> (lines 327--331) never returns by itself. Its first iterations
  are run here against a list of networks, the one each iteration meets; the list is the
  fuel. A panic leaving \<^verbatim>\<open>requestData\<close> would end the loop (and the process).
\<close>

fun runRequestLoop ::
  "(string \<Rightarrow> int option) \<Rightarrow> Node \<Rightarrow> 'f::{zero,plus} network list \<Rightarrow> 'f state \<Rightarrow> (panic + unit) \<times> 'f state" where
  "runRequestLoop ParseDuration node [] st = (Inr (), st)"
| "runRequestLoop ParseDuration node (net # nets) st =
     (case requestData ParseDuration net node st of
        (Inl p, st') \<Rightarrow> (Inl p, st')
      | (Inr _, st') \<Rightarrow> runRequestLoop ParseDuration node nets st')"

section \<open>The vocabulary of the properties\<close>

text \<open>
  The float64 under key \<open>f\<close> of the object under key \<open>g\<close> of a response, if there is one.
\<close>

definition field :: "'f gomap \<Rightarrow> string \<Rightarrow> string \<Rightarrow> 'f option" where
  "field response g f =
     (case index response g of
        VMap grp \<Rightarrow> (case index grp f of VFloat64 x \<Rightarrow> Some x | _ \<Rightarrow> None)
      | _ \<Rightarrow> None)"

text \<open>
  The group and the field each vector is set from in lines 251--265; \<^verbatim>\<open>messagesTotal\<close> is not
  set by \<^verbatim>\<open>getOverview\<close>.
\<close>

fun overview_field :: "metric \<Rightarrow> (string \<times> string) option" where
  "overview_field channelsTotal = Some (''object_totals'', ''channels'')"
| "overview_field connectionsTotal = Some (''object_totals'', ''connections'')"
| "overview_field consumersTotal = Some (''object_totals'', ''consumers'')"
| "overview_field queuesTotal = Some (''object_totals'', ''queues'')"
| "overview_field exchangesTotal = Some (''object_totals'', ''exchanges'')"
| "overview_field messagesCounter = Some (''queue_totals'', ''messages'')"
| "overview_field messagesReadyCounter = Some (''queue_totals'', ''messages_ready'')"
| "overview_field messagesUnacknowledgedCounter = Some (''queue_totals'', ''messages_unacknowledged'')"
| "overview_field messageStatsRedeliverCounter = Some (''message_stats'', ''redeliver'')"
| "overview_field messageStatsConfirmCounter = Some (''message_stats'', ''confirm'')"
| "overview_field messageStatsDeliverCounter = Some (''message_stats'', ''deliver'')"
| "overview_field messageStatsPublishCounter = Some (''message_stats'', ''publish'')"
| "overview_field messageStatsAckCounter = Some (''message_stats'', ''ack'')"
| "overview_field messageStatsDeliverGetCounter = Some (''message_stats'', ''deliver_get'')"
| "overview_field messageStatsDeliverNoAckCounter = Some (''message_stats'', ''deliver_no_ack'')"
| "overview_field messagesTotal = None"

text \<open>
  A response on which lines 228--249 do not panic: the three groups are objects and every
  value of \<open>object_totals\<close> is a float64.
\<close>

definition overview_ok :: "'f gomap \<Rightarrow> bool" where
  "overview_ok response =
     (case index response ''object_totals'' of
        VMap ot \<Rightarrow> fmpred (\<lambda>k v. is_float64 v) ot
          \<and> (case index response ''queue_totals'' of
                VMap qt \<Rightarrow> (case index response ''message_stats'' of VMap ms \<Rightarrow> True | _ \<Rightarrow> False)
              | _ \<Rightarrow> False)
      | _ \<Rightarrow> False)"

text \<open>
  A queue array on which lines 271--276 do not panic: it has a first element, whose
  \<open>node\<close> is a string, and the \<open>messages\<close> of every element is a float64.
\<close>

definition queues_ok :: "'f gomap list \<Rightarrow> bool" where
  "queues_ok response =
     (case response of
        [] \<Rightarrow> False
      | r0 # _ \<Rightarrow> (case index r0 ''node'' of VString n \<Rightarrow> True | _ \<Rightarrow> False)
          \<and> list_all (\<lambda>v. is_float64 (index v ''messages'')) response)"

text \<open>
  A request that brings no response.
\<close>

fun fetch_error :: "'f http \<Rightarrow> bool" where
  "fetch_error (Responds b) = False"
| "fetch_error _ = True"

text \<open>
  An error arises in the overview request of a poll iteration: the fetch brings no
  response, the decoder returns an error, or the mapping panics.
\<close>

definition overview_error :: "'f http \<Rightarrow> bool" where
  "overview_error r =
     (case r of
        Responds b \<Rightarrow> snd (Decode_map b) \<noteq> None \<or> \<not> overview_ok (fst (Decode_map b))
      | _ \<Rightarrow> True)"

text \<open>
  The same for the queues request.
\<close>

definition queues_error :: "'f http \<Rightarrow> bool" where
  "queues_error r =
     (case r of
        Responds b \<Rightarrow> snd (Decode_maps b) \<noteq> None \<or> \<not> queues_ok (fst (Decode_maps b))
      | _ \<Rightarrow> True)"

text \<open>
  Some error arises in the poll iteration of a node.
\<close>

definition cycle_error :: "'f network \<Rightarrow> Node \<Rightarrow> bool" where
  "cycle_error net node =
     (overview_error (net (Url node @ ''/api/overview'') (Uname node) (Password node))
      \<or> queues_error (net (Url node @ ''/api/queues'') (Uname node) (Password node)))"

text \<open>
  The overview request of a poll iteration makes it panic: the fetch brings no response,
  or what the decoder leaves (with or without an error) is not a response the mapping
  goes through. The same for the queues request, and for the iteration.
\<close>

definition overview_fails :: "'f http \<Rightarrow> bool" where
  "overview_fails r =
     (case r of
        Responds b \<Rightarrow> \<not> overview_ok (fst (Decode_map b))
      | _ \<Rightarrow> True)"

definition queues_fails :: "'f http \<Rightarrow> bool" where
  "queues_fails r =
     (case r of
        Responds b \<Rightarrow> \<not> queues_ok (fst (Decode_maps b))
      | _ \<Rightarrow> True)"

definition cycle_fails :: "'f network \<Rightarrow> Node \<Rightarrow> bool" where
  "cycle_fails net node =
     (overview_fails (net (Url node @ ''/api/overview'') (Uname node) (Password node))
      \<or> queues_fails (net (Url node @ ''/api/queues'') (Uname node) (Password node)))"

text \<open>A response whose document holds a number outside the range of float64.\<close>

fun range_error :: "'f http \<Rightarrow> bool" where
  "range_error (Responds (DocumentOutOfRange v)) = True"
| "range_error _ = False"

text \<open>
  The metric names the specification documents (its section 6), to compare the \<^verbatim>\<open>Name\<close>
  options of the source with.
\<close>

definition documented_names :: "string list" where
  "documented_names =
     [''connections_total'', ''channels_total'', ''queues_total'', ''consumers_total'',
      ''exchanges_total'', ''messages_total'', ''messages'', ''messages_ready'',
      ''messages_unacknowledged'', ''messages_published'', ''messages_acked'',
      ''messages_delivered'', ''messages_confirmed'', ''messages_redelivered'',
      ''messages_delivered_get'', ''messages_delivered_no_ack'']"

text \<open>
  The goroutines that \<^verbatim>\<open>updateNodesStats\<close> starts share the registry and the log;
  \<^verbatim>\<open>time.Sleep\<close> blocks the goroutine that calls it and no other, so each goroutine has
  its own sleeps. A process state holds the shared registry and log and, for each
  goroutine (numbered as \<^verbatim>\<open>updateNodesStats\<close> starts them), the sleeps it has made.
\<close>

record 'f process =
  p_registry :: "'f registry"
  p_logged :: "log_entry list"
  p_slept :: "nat \<Rightarrow> int list"

text \<open>
  One iteration of \<^verbatim>\<open>runRequestLoop\<close> in goroutine \<open>i\<close>: \<^verbatim>\<open>requestData\<close> on the shared
  registry and log and on the goroutine's own sleeps.
\<close>

definition poll ::
  "(string \<Rightarrow> int option) \<Rightarrow> nat \<Rightarrow> Node \<Rightarrow> 'f::{zero,plus} network \<Rightarrow> 'f process \<Rightarrow> (panic + unit) \<times> 'f process" where
  "poll ParseDuration i node net P =
     (case requestData ParseDuration net node
             \<lparr>registry = p_registry P, logged = p_logged P, slept = p_slept P i\<rparr> of
        (r, st') \<Rightarrow>
          (r, \<lparr>p_registry = registry st', p_logged = logged st',
               p_slept = (p_slept P)(i := slept st')\<rparr>))"

text \<open>
  The iterations of the goroutines happen in an order nothing fixes. A schedule lists them
  in the order in which they happen, each with its goroutine, its node and the network it
  meets; iterations are taken as whole steps. A panic that left \<^verbatim>\<open>requestData\<close> in any
  goroutine would end the process, and with it the schedule.
\<close>

fun run_schedule ::
  "(string \<Rightarrow> int option) \<Rightarrow> (nat \<times> Node \<times> 'f::{zero,plus} network) list \<Rightarrow> 'f process \<Rightarrow> (panic + unit) \<times> 'f process" where
  "run_schedule ParseDuration [] P = (Inr (), P)"
| "run_schedule ParseDuration ((i, node, net) # rest) P =
     (case poll ParseDuration i node net P of
        (Inl p, P') \<Rightarrow> (Inl p, P')
      | (Inr _, P') \<Rightarrow> run_schedule ParseDuration rest P')"

text \<open>
  The label under which the overview request of an iteration writes: the \<^verbatim>\<open>node\<close> of the
  decoded response (the empty string when there is no response).
\<close>

definition overview_label :: "'f http \<Rightarrow> string" where
  "overview_label r =
     (case r of
        Responds b \<Rightarrow> assert_string_ok (index (fst (Decode_map b)) ''node'')
      | _ \<Rightarrow> [])"

section \<open>Concrete inputs\<close>

text \<open>The empty state, and an overview carrying every field the program reads.\<close>

definition st0 :: "real state" where
  "st0 = \<lparr>registry = Map.empty, logged = [], slept = []\<rparr>"

definition example_overview :: "real gomap" where
  "example_overview = fmap_of_list
     [(''node'', VString ''rabbit@a''),
      (''object_totals'', VMap (fmap_of_list
         [(''channels'', VFloat64 1), (''connections'', VFloat64 2), (''consumers'', VFloat64 3),
          (''queues'', VFloat64 4), (''exchanges'', VFloat64 5)])),
      (''queue_totals'', VMap (fmap_of_list
         [(''messages'', VFloat64 6), (''messages_ready'', VFloat64 7),
          (''messages_unacknowledged'', VFloat64 8)])),
      (''message_stats'', VMap (fmap_of_list
         [(''publish'', VFloat64 9), (''ack'', VFloat64 10), (''deliver'', VFloat64 11),
          (''confirm'', VFloat64 12), (''redeliver'', VFloat64 13), (''deliver_get'', VFloat64 14),
          (''deliver_no_ack'', VFloat64 15)]))]"

text \<open>An overview whose \<open>object_totals\<close> holds a string where a number belongs.\<close>

definition overview_bad :: "real gomap" where
  "overview_bad = fmap_of_list
     [(''node'', VString ''rabbit@a''),
      (''object_totals'', VMap (fmap_of_list [(''channels'', VString ''three'')])),
      (''queue_totals'', VMap fmempty),
      (''message_stats'', VMap fmempty)]"

text \<open>The queue array of the specification's example.\<close>

definition example_queues :: "real iface" where
  "example_queues = VSlice
     [VMap (fmap_of_list [(''node'', VString ''rabbit@a''), (''messages'', VFloat64 3)]),
      VMap (fmap_of_list [(''node'', VString ''rabbit@a''), (''messages'', VFloat64 7)])]"

text \<open>
  A network on which the broker at \<^verbatim>\<open>http://a\<close> answers with the two given documents and
  every other request fails in \<^verbatim>\<open>client.Do\<close>.
\<close>

definition network_of :: "real iface \<Rightarrow> real iface \<Rightarrow> real network" where
  "network_of ov qs = (\<lambda>url username password.
     if url = ''http://a/api/overview'' then Responds (Document ov)
     else if url = ''http://a/api/queues'' then Responds (Document qs)
     else DoFails)"

text \<open>Two nodes, and a \<^verbatim>\<open>ParseDuration\<close> that parses \<^verbatim>\<open>"60s"\<close> alone.\<close>

definition node_a :: Node where
  "node_a = \<lparr>Name = ''a'', Url = ''http://a'', Uname = ''guest'', Password = ''guest'',
             Interval = ''60s''\<rparr>"

definition node_b :: Node where
  "node_b = \<lparr>Name = ''b'', Url = ''http://b'', Uname = ''guest'', Password = ''guest'',
             Interval = ''soon''\<rparr>"

definition ParseDuration_60s :: "string \<Rightarrow> int option" where
  "ParseDuration_60s s = (if s = ''60s'' then Some (60 * Second) else None)"

text \<open>
  An overview with fields missing (\<open>queue_totals.messages\<close> among them) and a string
  under \<open>message_stats.publish\<close>, and a state whose registry already holds a value for
  \<^verbatim>\<open>messagesCounter\<close>.
\<close>

definition overview_partial :: "real gomap" where
  "overview_partial = fmap_of_list
     [(''node'', VString ''rabbit@a''),
      (''object_totals'', VMap (fmap_of_list [(''channels'', VFloat64 1)])),
      (''queue_totals'', VMap (fmap_of_list [(''messages_ready'', VFloat64 7)])),
      (''message_stats'', VMap (fmap_of_list [(''publish'', VString ''many'')]))]"

definition st_prior :: "real state" where
  "st_prior = \<lparr>registry = [(messagesCounter, ''rabbit@a'') \<mapsto> 42], logged = [], slept = []\<rparr>"

text \<open>An overview whose \<open>node\<close> is a number.\<close>

definition overview_unnamed :: "real gomap" where
  "overview_unnamed = fmap_of_list
     [(''node'', VFloat64 7),
      (''object_totals'', VMap (fmap_of_list [(''channels'', VFloat64 1)])),
      (''queue_totals'', VMap fmempty),
      (''message_stats'', VMap fmempty)]"

text \<open>
  An overview and a queue array that carry one given number, and a configuration whose
  second node has no interval of its own.
\<close>

definition overview_with :: "real \<Rightarrow> real gomap" where
  "overview_with x = fmap_of_list
     [(''node'', VString ''rabbit@a''),
      (''object_totals'', VMap (fmap_of_list [(''channels'', VFloat64 x)])),
      (''queue_totals'', VMap (fmap_of_list [(''messages'', VFloat64 x)])),
      (''message_stats'', VMap fmempty)]"

definition queues_with :: "real \<Rightarrow> real gomap list" where
  "queues_with x = [fmap_of_list [(''node'', VString ''rabbit@a''), (''messages'', VFloat64 x)]]"

definition example_config :: Config where
  "example_config = \<lparr>Nodes = Some [node_a, node_b\<lparr>Node.Interval := ''''\<rparr>], Port = ''9090'',
                      Interval = ''30s''\<rparr>"

text \<open>
  The overview that the decoder builds from a document whose \<open>message_stats.publish\<close> is
  \<^verbatim>\<open>1e999\<close>: nil stands in the place of the number.
\<close>

definition overview_nil_publish :: "real gomap" where
  "overview_nil_publish = fmap_of_list
     [(''node'', VString ''rabbit@a''),
      (''object_totals'', VMap (fmap_of_list [(''channels'', VFloat64 1)])),
      (''queue_totals'', VMap (fmap_of_list [(''messages'', VFloat64 6)])),
      (''message_stats'', VMap (fmap_of_list [(''publish'', VNil)]))]"

text \<open>A network on which the broker at \<^verbatim>\<open>http://a\<close> answers with the two given bodies.\<close>

definition network_bodies :: "real body \<Rightarrow> real body \<Rightarrow> real network" where
  "network_bodies ov qs = (\<lambda>url username password.
     if url = ''http://a/api/overview'' then Responds ov
     else if url = ''http://a/api/queues'' then Responds qs
     else DoFails)"

text \<open>
  A third node, and a network on which its broker reports the same node name as the
  broker of \<open>node_a\<close> does, answers the overview request and fails the queues request.
\<close>

definition node_x :: Node where
  "node_x = \<lparr>Name = ''x'', Url = ''http://x'', Uname = ''guest'', Password = ''guest'',
             Interval = ''60s''\<rparr>"

definition network_shared :: "real network" where
  "network_shared = (\<lambda>url username password.
     if url = ''http://a/api/overview'' then Responds (Document (VMap (overview_with 1)))
     else if url = ''http://a/api/queues'' then Responds (Document example_queues)
     else if url = ''http://x/api/overview'' then Responds (Document (VMap (overview_with 99)))
     else DoFails)"

text \<open>The process state at the start.\<close>

definition P0 :: "real process" where
  "P0 = \<lparr>p_registry = Map.empty, p_logged = [], p_slept = (\<lambda>i. [])\<rparr>"

section \<open>Lemmas\<close>

lemma assert_map_Inr: "assert_map x = Inr m \<longleftrightarrow> x = VMap m"
  by (cases x) auto

lemma assert_map_Inl: "assert_map x = Inl p \<Longrightarrow> p = RuntimeError InterfaceConversion \<and> (\<forall>m. x \<noteq> VMap m)"
  by (cases x) auto

lemma getOverview_map_panic:
  "getOverview_map response st = (Inl p, st') \<Longrightarrow> st' = st"
  by (auto simp: getOverview_map_def Let_def split: sum.splits)

lemma getOverview_map_ok_iff:
  "fst (getOverview_map response st) = Inr () \<longleftrightarrow> overview_ok response"
  by (auto simp: getOverview_map_def overview_ok_def range_assert_def Let_def assert_map_Inr
      split: sum.splits iface.splits if_splits dest: assert_map_Inl)

lemma float64_at_range_switch:
  "index response g = VMap grp \<Longrightarrow>
   float64_at (range_switch grp) f = (case field response g f of None \<Rightarrow> 0 | Some x \<Rightarrow> x)"
  by (auto simp: float64_at_def range_switch_def field_def index_def split: option.splits iface.splits)

lemma float64_at_range_assert:
  "index response g = VMap grp \<Longrightarrow> range_assert grp = Inr m \<Longrightarrow>
   float64_at m f = (case field response g f of None \<Rightarrow> 0 | Some x \<Rightarrow> x)"
  by (auto simp: float64_at_def range_assert_def field_def index_def split: option.splits iface.splits if_splits)

lemma getOverview_map_registry:
  assumes "getOverview_map response st = (Inr u, st')"
  shows "registry st' (m, l) =
          (if l = assert_string_ok (index response ''node'') \<and> m \<noteq> messagesTotal
           then Some (case field response (fst (the (overview_field m))) (snd (the (overview_field m))) of None \<Rightarrow> 0 | Some x \<Rightarrow> x)
           else registry st (m, l))"
  using assms
  apply (simp add: getOverview_map_def Let_def assert_map_Inr split: sum.splits)
  apply (cases m)
  apply (auto simp: WithLabelValues_Set_def float64_at_range_switch float64_at_range_assert)
  done

lemma getOverview_map_rest:
  assumes "getOverview_map response st = (Inr u, st')"
  shows "logged st' = logged st \<and> slept st' = slept st"
  using assms
  by (auto simp: getOverview_map_def Let_def split: sum.splits)

lemma fmpred_fmupd_eval:
  "fmpred P (fmupd k v m) \<longleftrightarrow> P k v \<and> fmpred (\<lambda>k' v'. k' \<noteq> k \<longrightarrow> P k' v') m"
  by (auto simp: fmpred_iff)

lemma example_overview_ok: "overview_ok example_overview"
  by (simp add: overview_ok_def example_overview_def index_def fmpred_fmupd_eval)

lemma sendApiRequest_Responds:
  "net (h @ q) u p = Responds b \<Longrightarrow> sendApiRequest net h u p q st = (Inr b, st)"
  by (simp add: sendApiRequest_def)

lemma sendApiRequest_fetch_error:
  "fetch_error (net (h @ q) u p) \<Longrightarrow>
   \<exists>e st'. sendApiRequest net h u p q st = (Inl e, st') \<and> registry st' = registry st \<and> slept st' = slept st"
  by (cases "net (h @ q) u p") (auto simp: sendApiRequest_def)

lemma sendApiRequest_keeps:
  "sendApiRequest net h u p q st = (r, st') \<Longrightarrow> registry st' = registry st \<and> slept st' = slept st"
  by (cases "net (h @ q) u p") (auto simp: sendApiRequest_def)

lemma decodeObj_keeps:
  "decodeObj b st = (response, st') \<Longrightarrow> registry st' = registry st \<and> slept st' = slept st"
  by (auto simp: decodeObj_def split: prod.splits option.splits)

lemma decodeObjArray_keeps:
  "decodeObjArray b st = (response, st') \<Longrightarrow> registry st' = registry st \<and> slept st' = slept st"
  by (auto simp: decodeObjArray_def split: prod.splits option.splits)

lemma getOverview_Document:
  "net (h @ ''/api/overview'') u p = Responds (Document (VMap response)) \<Longrightarrow>
   getOverview net h u p st = getOverview_map response st"
  by (simp add: getOverview_def sendApiRequest_def decodeObj_def)

lemma getOverview_unfold:
  "getOverview net h u p st =
     (case net (h @ ''/api/overview'') u p of
        NewRequestFails \<Rightarrow> (Inl (RuntimeError NilDereference), st)
      | DoFails \<Rightarrow> (Inl (Panic DoError), st\<lparr>logged := logged st @ [log_Error DoError]\<rparr>)
      | Responds b \<Rightarrow>
          getOverview_map (fst (Decode_map b))
            (case snd (Decode_map b) of
               None \<Rightarrow> st
             | Some e \<Rightarrow> st\<lparr>logged := logged st @ [log_Error e]\<rparr>))"
  by (simp add: getOverview_def sendApiRequest_def decodeObj_def
      split: http.splits prod.splits option.splits)

lemma getOverview_map_snd_panic:
  "fst (getOverview_map response st) = Inl e \<Longrightarrow> snd (getOverview_map response st) = st"
  by (cases "getOverview_map response st") (auto dest: getOverview_map_panic)

lemma getOverview_map_slept:
  "slept (snd (getOverview_map response st)) = slept st"
  by (simp add: getOverview_map_def Let_def split: sum.splits)

lemma getOverview_panic_keeps:
  assumes "getOverview net h u p st = (Inl e, st')"
  shows "registry st' = registry st"
  using assms unfolding getOverview_unfold
  by (auto split: http.splits option.splits dest!: getOverview_map_panic)

lemma getOverview_slept:
  "slept (snd (getOverview net h u p st)) = slept st"
  unfolding getOverview_unfold
  by (simp add: getOverview_map_slept split: http.splits option.splits)

lemma assert_float64_Inr: "assert_float64 x = Inr v \<longleftrightarrow> x = VFloat64 v"
  by (cases x) auto

lemma assert_string_Inr: "assert_string x = Inr s \<longleftrightarrow> x = VString s"
  by (cases x) auto

lemma is_float64_iff: "is_float64 x \<longleftrightarrow> (\<exists>v. x = VFloat64 v)"
  by (cases x) auto

lemma sum_messages_ok:
  "map (\<lambda>q. index q ''messages'') response = map VFloat64 xs \<Longrightarrow>
   sum_messages response t = Inr (foldl (+) t xs)"
proof (induction response arbitrary: xs t)
  case Nil
  then show ?case by simp
next
  case (Cons q qs)
  then obtain x xs' where xs: "xs = x # xs'" by (cases xs) auto
  with Cons.prems have "index q ''messages'' = VFloat64 x"
    and "map (\<lambda>q. index q ''messages'') qs = map VFloat64 xs'" by auto
  with Cons.IH [of xs' "t + x"] xs show ?case by simp
qed

lemma sum_messages_Inr_iff:
  "(\<exists>t'. sum_messages response t = Inr t') \<longleftrightarrow>
   list_all (\<lambda>v. is_float64 (index v ''messages'')) response"
proof (induction response arbitrary: t)
  case Nil
  then show ?case by simp
next
  case (Cons q qs)
  show ?case
  proof (cases "index q ''messages''")
    case (VFloat64 x)
    with Cons.IH [of "t + x"] show ?thesis by simp
  qed simp_all
qed

lemma sum_messages_Inl:
  "sum_messages response t = Inl e \<Longrightarrow> e = RuntimeError InterfaceConversion"
proof (induction response arbitrary: t)
  case Nil
  then show ?case by simp
next
  case (Cons q qs)
  then show ?case by (cases "index q ''messages''") auto
qed

lemma getNumberOfMessages_map_panic:
  "getNumberOfMessages_map response st = (Inl e, st') \<Longrightarrow> st' = st"
  by (auto simp: getNumberOfMessages_map_def split: list.splits sum.splits)

lemma getNumberOfMessages_map_ok_iff:
  "fst (getNumberOfMessages_map response st) = Inr () \<longleftrightarrow> queues_ok response"
proof (cases response)
  case Nil
  then show ?thesis by (simp add: getNumberOfMessages_map_def queues_ok_def)
next
  case (Cons r0 rs)
  show ?thesis
  proof (cases "index r0 ''node''")
    case (VString n)
    show ?thesis
    proof (cases "sum_messages response 0")
      case (Inl e)
      with sum_messages_Inr_iff [of response 0] Cons VString show ?thesis
        by (simp add: getNumberOfMessages_map_def queues_ok_def)
    next
      case (Inr t)
      with sum_messages_Inr_iff [of response 0] Cons VString show ?thesis
        by (simp add: getNumberOfMessages_map_def queues_ok_def)
    qed
  qed (simp_all add: Cons getNumberOfMessages_map_def queues_ok_def)
qed

lemma getNumberOfMessages_map_slept:
  "slept (snd (getNumberOfMessages_map response st)) = slept st"
  by (simp add: getNumberOfMessages_map_def split: list.splits sum.splits)

lemma getNumberOfMessages_map_logged:
  "logged (snd (getNumberOfMessages_map response st)) = logged st"
  by (simp add: getNumberOfMessages_map_def split: list.splits sum.splits)

lemma getNumberOfMessages_map_total:
  assumes "response \<noteq> []" and "index (hd response) ''node'' = VString n"
    and "sum_messages response 0 = Inr t"
  shows "getNumberOfMessages_map response st =
           (Inr (), st\<lparr>registry := (registry st)((messagesTotal, n) \<mapsto> t)\<rparr>)"
  using assms
  by (cases response) (simp_all add: getNumberOfMessages_map_def WithLabelValues_Set_def)

lemma getNumberOfMessages_unfold:
  "getNumberOfMessages net h u p st =
     (case net (h @ ''/api/queues'') u p of
        NewRequestFails \<Rightarrow> (Inl (RuntimeError NilDereference), st)
      | DoFails \<Rightarrow> (Inl (Panic DoError), st\<lparr>logged := logged st @ [log_Error DoError]\<rparr>)
      | Responds b \<Rightarrow>
          getNumberOfMessages_map (fst (Decode_maps b))
            (case snd (Decode_maps b) of
               None \<Rightarrow> st
             | Some e \<Rightarrow> st\<lparr>logged := logged st @ [log_Error e]\<rparr>))"
  by (simp add: getNumberOfMessages_def sendApiRequest_def decodeObjArray_def
      split: http.splits prod.splits option.splits)

lemma getNumberOfMessages_slept:
  "slept (snd (getNumberOfMessages net h u p st)) = slept st"
  unfolding getNumberOfMessages_unfold
  by (simp add: getNumberOfMessages_map_slept split: http.splits option.splits)

lemma queues_ok_all:
  "queues_ok response \<Longrightarrow> list_all (\<lambda>v. is_float64 (index v ''messages'')) response"
  by (cases response) (simp_all add: queues_ok_def)

lemma Decode_map_error:
  "snd (Decode_map b) = Some e \<Longrightarrow>
   \<not> overview_ok (fst (Decode_map b)) \<or> (\<exists>v. b = DocumentOutOfRange v)"
  by (cases b rule: Decode_map.cases) (simp_all add: overview_ok_def index_def)

lemma getOverview_ok_iff:
  "fst (getOverview net h u p st) = Inr () \<longleftrightarrow> \<not> overview_fails (net (h @ ''/api/overview'') u p)"
  unfolding getOverview_unfold overview_fails_def
  by (simp add: getOverview_map_ok_iff split: http.splits option.splits)

lemma Decode_maps_error:
  "snd (Decode_maps b) = Some e \<Longrightarrow>
   \<not> queues_ok (fst (Decode_maps b)) \<or> (\<exists>v. b = DocumentOutOfRange v)"
proof (cases b rule: Decode_maps.cases)
  case (1 xs)
  assume "snd (Decode_maps b) = Some e"
  with 1 have "\<not> list_all element_fits xs" by (simp split: if_splits)
  then obtain x where x: "x \<in> set xs" "\<not> element_fits x" by (auto simp: list_all_iff)
  from x(2) have "element_map x = fmempty" by (cases x) auto
  then have "\<not> is_float64 (index (element_map x) ''messages'')" by (simp add: index_def)
  with x have "\<not> list_all (\<lambda>v. is_float64 (index v ''messages'')) (map element_map xs)"
    by (auto simp: list_all_iff)
  with 1 show ?thesis
    using queues_ok_all [of "map element_map xs"] by auto
qed (simp_all add: queues_ok_def)

lemma getNumberOfMessages_ok_iff:
  "fst (getNumberOfMessages net h u p st) = Inr () \<longleftrightarrow> \<not> queues_fails (net (h @ ''/api/queues'') u p)"
  unfolding getNumberOfMessages_unfold queues_fails_def
  by (simp add: getNumberOfMessages_map_ok_iff split: http.splits option.splits)

lemma overview_fails_error: "overview_fails r \<Longrightarrow> overview_error r"
  by (simp add: overview_fails_def overview_error_def split: http.splits)

lemma queues_fails_error: "queues_fails r \<Longrightarrow> queues_error r"
  by (simp add: queues_fails_def queues_error_def split: http.splits)

lemma cycle_fails_error: "cycle_fails net node \<Longrightarrow> cycle_error net node"
  by (auto simp: cycle_fails_def cycle_error_def dest: overview_fails_error queues_fails_error)

lemma overview_error_cases: "overview_error r \<Longrightarrow> overview_fails r \<or> range_error r"
proof (cases r)
  case (Responds b)
  assume "overview_error r"
  with Responds have "snd (Decode_map b) \<noteq> None \<or> \<not> overview_ok (fst (Decode_map b))"
    by (simp add: overview_error_def)
  then show ?thesis
  proof
    assume "snd (Decode_map b) \<noteq> None"
    then obtain e where "snd (Decode_map b) = Some e" by auto
    from Decode_map_error [OF this] Responds show ?thesis
      by (auto simp: overview_fails_def)
  next
    assume "\<not> overview_ok (fst (Decode_map b))"
    with Responds show ?thesis by (simp add: overview_fails_def)
  qed
qed (simp_all add: overview_fails_def)

lemma queues_error_cases: "queues_error r \<Longrightarrow> queues_fails r \<or> range_error r"
proof (cases r)
  case (Responds b)
  assume "queues_error r"
  with Responds have "snd (Decode_maps b) \<noteq> None \<or> \<not> queues_ok (fst (Decode_maps b))"
    by (simp add: queues_error_def)
  then show ?thesis
  proof
    assume "snd (Decode_maps b) \<noteq> None"
    then obtain e where "snd (Decode_maps b) = Some e" by auto
    from Decode_maps_error [OF this] Responds show ?thesis
      by (auto simp: queues_fails_def)
  next
    assume "\<not> queues_ok (fst (Decode_maps b))"
    with Responds show ?thesis by (simp add: queues_fails_def)
  qed
qed (simp_all add: queues_fails_def)

lemma requestData_body_ok_iff:
  "fst (requestData_body pd net node st) = Inr () \<longleftrightarrow> \<not> cycle_fails net node"
proof -
  obtain r1 st1 where ov: "getOverview net (Url node) (Uname node) (Password node) st = (r1, st1)"
    by (cases "getOverview net (Url node) (Uname node) (Password node) st")
  obtain r2 st2 where qs: "getNumberOfMessages net (Url node) (Uname node) (Password node) st1 = (r2, st2)"
    by (cases "getNumberOfMessages net (Url node) (Uname node) (Password node) st1")
  from ov getOverview_ok_iff [of net "Url node" "Uname node" "Password node" st]
  have 1: "r1 = Inr () \<longleftrightarrow> \<not> overview_fails (net (Url node @ ''/api/overview'') (Uname node) (Password node))"
    by simp
  from qs getNumberOfMessages_ok_iff [of net "Url node" "Uname node" "Password node" st1]
  have 2: "r2 = Inr () \<longleftrightarrow> \<not> queues_fails (net (Url node @ ''/api/queues'') (Uname node) (Password node))"
    by simp
  show ?thesis
    using ov qs 1 2
    by (cases r1; cases r2) (auto simp: requestData_body_def cycle_fails_def split: option.splits)
qed

lemma requestData_never_panics:
  "fst (requestData pd net node st) = Inr ()"
  by (cases "requestData_body pd net node st" rule: prod.exhaust)
    (auto simp: requestData_def deferred_recover_def split: sum.splits)

lemma requestData_body_slept:
  "slept (snd (requestData_body pd net node st)) =
     (if cycle_fails net node then slept st
      else slept st @ [case pd (Node.Interval node) of None \<Rightarrow> 30 * Second | Some dt \<Rightarrow> dt])"
proof -
  obtain r1 st1 where ov: "getOverview net (Url node) (Uname node) (Password node) st = (r1, st1)"
    by (cases "getOverview net (Url node) (Uname node) (Password node) st")
  obtain r2 st2 where qs: "getNumberOfMessages net (Url node) (Uname node) (Password node) st1 = (r2, st2)"
    by (cases "getNumberOfMessages net (Url node) (Uname node) (Password node) st1")
  from ov have s1: "slept st1 = slept st"
    using getOverview_slept [of net "Url node" "Uname node" "Password node" st] by simp
  from qs have s2: "slept st2 = slept st1"
    using getNumberOfMessages_slept [of net "Url node" "Uname node" "Password node" st1] by simp
  have ok: "fst (requestData_body pd net node st) = Inr () \<longleftrightarrow> \<not> cycle_fails net node"
    by (rule requestData_body_ok_iff)
  show ?thesis
    using ov qs s1 s2 ok
    by (cases r1; cases r2) (auto simp: requestData_body_def Sleep_def split: option.splits)
qed

lemma requestData_slept:
  "slept (snd (requestData pd net node st)) =
     slept st @ [if cycle_fails net node then 10 * Second
                 else case pd (Node.Interval node) of None \<Rightarrow> 30 * Second | Some dt \<Rightarrow> dt]"
proof -
  obtain r st1 where b: "requestData_body pd net node st = (r, st1)"
    by (cases "requestData_body pd net node st")
  with requestData_body_ok_iff [of pd net node st] requestData_body_slept [of pd net node st]
  show ?thesis
    by (cases r) (auto simp: requestData_def deferred_recover_def Sleep_def)
qed

lemma assert_string_ok_other: "\<forall>s. x \<noteq> VString s \<Longrightarrow> assert_string_ok x = []"
  by (cases x) auto

lemma getOverview_map_ok:
  "overview_ok response \<Longrightarrow> \<exists>st'. getOverview_map response st = (Inr (), st')"
  using getOverview_map_ok_iff [of response st]
  by (cases "getOverview_map response st") auto

lemma getOverview_messagesTotal:
  "registry (snd (getOverview net h u p st)) (messagesTotal, l) = registry st (messagesTotal, l)"
proof -
  have *: "registry (snd (getOverview_map response st1)) (messagesTotal, l) = registry st1 (messagesTotal, l)"
    for response and st1 :: "'a state"
  proof (cases "getOverview_map response st1")
    case (Pair r st2)
    then show ?thesis
    proof (cases r)
      case (Inl e)
      with Pair show ?thesis by (auto dest: getOverview_map_panic)
    next
      case (Inr u)
      with Pair getOverview_map_registry [of response st1 u st2 messagesTotal l]
      show ?thesis by simp
    qed
  qed
  show ?thesis
    unfolding getOverview_unfold
    by (simp add: * split: http.splits option.splits)
qed

lemma getNumberOfMessages_Document:
  "net (h @ ''/api/queues'') u p = Responds (Document (VSlice (map VMap response))) \<Longrightarrow>
   getNumberOfMessages net h u p st = getNumberOfMessages_map response st"
proof -
  have "map (element_map \<circ> VMap) response = response"
    by (induction response) auto
  moreover have "list_all element_fits (map VMap response)"
    by (induction response) auto
  ultimately show "net (h @ ''/api/queues'') u p = Responds (Document (VSlice (map VMap response))) \<Longrightarrow>
     getNumberOfMessages net h u p st = getNumberOfMessages_map response st"
    by (simp add: getNumberOfMessages_unfold)
qed

lemma opts_Name_documented: "opts_Name m \<in> set documented_names"
  by (cases m) (simp_all add: documented_names_def)

lemma overview_vectors:
  "{m. m \<noteq> messagesTotal} =
     {connectionsTotal, channelsTotal, queuesTotal, consumersTotal, exchangesTotal,
      messagesCounter, messagesReadyCounter, messagesUnacknowledgedCounter,
      messageStatsPublishCounter, messageStatsAckCounter, messageStatsDeliverCounter,
      messageStatsConfirmCounter, messageStatsRedeliverCounter, messageStatsDeliverGetCounter,
      messageStatsDeliverNoAckCounter}"
proof (rule set_eqI)
  fix m :: metric
  show "m \<in> {m. m \<noteq> messagesTotal} \<longleftrightarrow>
     m \<in> {connectionsTotal, channelsTotal, queuesTotal, consumersTotal, exchangesTotal,
      messagesCounter, messagesReadyCounter, messagesUnacknowledgedCounter,
      messageStatsPublishCounter, messageStatsAckCounter, messageStatsDeliverCounter,
      messageStatsConfirmCounter, messageStatsRedeliverCounter, messageStatsDeliverGetCounter,
      messageStatsDeliverNoAckCounter}"
    by (cases m) simp_all
qed

lemma card_overview_vectors: "card {m. m \<noteq> messagesTotal} = 15"
  unfolding overview_vectors by simp

lemma overview_field_Some: "m \<noteq> messagesTotal \<Longrightarrow> \<exists>g f. overview_field m = Some (g, f)"
  by (cases m) simp_all

lemma getOverview_map_dom:
  assumes "getOverview_map response st = (Inr u, st')" and "registry st = Map.empty"
  shows "dom (registry st') = (\<lambda>m. (m, assert_string_ok (index response ''node''))) ` {m. m \<noteq> messagesTotal}"
proof (rule set_eqI)
  fix k :: "metric \<times> string"
  obtain m l where k: "k = (m, l)" by (cases k)
  from getOverview_map_registry [OF assms(1), of m l] assms(2) k
  show "k \<in> dom (registry st') \<longleftrightarrow>
        k \<in> (\<lambda>m. (m, assert_string_ok (index response ''node''))) ` {m. m \<noteq> messagesTotal}"
    by (auto simp: dom_def image_iff split: if_splits)
qed

lemma example_overview_fields:
  assumes "overview_field m = Some (g, f)"
  shows "field example_overview g f \<noteq> None"
proof -
  have "m \<noteq> messagesTotal \<Longrightarrow>
    field example_overview (fst (the (overview_field m))) (snd (the (overview_field m))) \<noteq> None"
    by (cases m) (simp_all add: field_def example_overview_def index_def)
  moreover from assms have "m \<noteq> messagesTotal" by auto
  ultimately show ?thesis using assms by simp
qed

lemma overview_partial_ok: "overview_ok overview_partial"
  by (simp add: overview_ok_def overview_partial_def index_def fmpred_fmupd_eval)

lemma runRequestLoop_slept:
  "fst (runRequestLoop pd node nets st) = Inr ()
   \<and> slept (snd (runRequestLoop pd node nets st)) =
       slept st @ map (\<lambda>net. if cycle_fails net node then 10 * Second
                              else case pd (Node.Interval node) of None \<Rightarrow> 30 * Second | Some dt \<Rightarrow> dt) nets"
proof (induction nets arbitrary: st)
  case Nil
  then show ?case by simp
next
  case (Cons net nets)
  obtain r st' where step: "requestData pd net node st = (r, st')"
    by (cases "requestData pd net node st")
  with requestData_never_panics [of pd net node st] have r: "r = Inr ()" by simp
  from step requestData_slept [of pd net node st]
  have "slept st' = slept st @ [if cycle_fails net node then 10 * Second
                 else case pd (Node.Interval node) of None \<Rightarrow> 30 * Second | Some dt \<Rightarrow> dt]"
    by simp
  with Cons.IH [of st'] step r show ?case by simp
qed

lemma fetch_error_overview_fails: "fetch_error r \<Longrightarrow> overview_fails r"
  by (cases r) (simp_all add: overview_fails_def)

lemma fetch_error_queues_fails: "fetch_error r \<Longrightarrow> queues_fails r"
  by (cases r) (simp_all add: queues_fails_def)

lemma getOverview_map_logged:
  "logged (snd (getOverview_map response st)) = logged st"
  by (simp add: getOverview_map_def Let_def split: sum.splits)

lemma getOverview_logged:
  "\<not> overview_error (net (h @ ''/api/overview'') u p) \<Longrightarrow>
   logged (snd (getOverview net h u p st)) = logged st"
  unfolding getOverview_unfold overview_error_def
  by (auto simp: getOverview_map_logged split: http.splits option.splits)

lemma getNumberOfMessages_logged:
  "\<not> queues_error (net (h @ ''/api/queues'') u p) \<Longrightarrow>
   logged (snd (getNumberOfMessages net h u p st)) = logged st"
  unfolding getNumberOfMessages_unfold queues_error_def
  by (auto simp: getNumberOfMessages_map_logged split: http.splits option.splits)

lemma requestData_logged:
  assumes "\<not> cycle_error net node"
  shows "logged (snd (requestData pd net node st)) =
           logged st @ (case pd (Node.Interval node) of None \<Rightarrow> [log_Warn ParseDurationError] | Some dt \<Rightarrow> [])"
proof -
  obtain r1 st1 where ov: "getOverview net (Url node) (Uname node) (Password node) st = (r1, st1)"
    by (cases "getOverview net (Url node) (Uname node) (Password node) st")
  obtain r2 st2 where qs: "getNumberOfMessages net (Url node) (Uname node) (Password node) st1 = (r2, st2)"
    by (cases "getNumberOfMessages net (Url node) (Uname node) (Password node) st1")
  from assms have e1: "\<not> overview_error (net (Url node @ ''/api/overview'') (Uname node) (Password node))"
    and e2: "\<not> queues_error (net (Url node @ ''/api/queues'') (Uname node) (Password node))"
    by (simp_all add: cycle_error_def)
  from e1 have f1: "\<not> overview_fails (net (Url node @ ''/api/overview'') (Uname node) (Password node))"
    using overview_fails_error by blast
  from e2 have f2: "\<not> queues_fails (net (Url node @ ''/api/queues'') (Uname node) (Password node))"
    using queues_fails_error by blast
  from ov f1 getOverview_ok_iff [of net "Url node" "Uname node" "Password node" st]
  have r1: "r1 = Inr ()" by simp
  from qs f2 getNumberOfMessages_ok_iff [of net "Url node" "Uname node" "Password node" st1]
  have r2: "r2 = Inr ()" by simp
  from ov getOverview_logged
    [where net = net and h = "Url node" and u = "Uname node" and p = "Password node", OF e1, of st]
  have l1: "logged st1 = logged st" by simp
  from qs getNumberOfMessages_logged
    [where net = net and h = "Url node" and u = "Uname node" and p = "Password node", OF e2, of st1]
  have l2: "logged st2 = logged st1" by simp
  show ?thesis
    using ov qs r1 r2 l1 l2
    by (simp add: requestData_def requestData_body_def deferred_recover_def Sleep_def
        split: option.splits)
qed

lemma example_cycle_ok: "\<not> cycle_error (network_of (VMap example_overview) example_queues) node_a"
proof -
  have "queues_ok (fst (Decode_maps (Document example_queues)))"
    by (simp add: example_queues_def queues_ok_def index_def)
  with example_overview_ok show ?thesis
    by (simp add: cycle_error_def overview_error_def queues_error_def network_of_def node_a_def
        example_queues_def)
qed

lemma overview_ok_with: "overview_ok (overview_with x)"
  by (simp add: overview_ok_def overview_with_def index_def fmpred_fmupd_eval)

lemma getOverview_map_writes:
  "registry (snd (getOverview_map response st)) =
     registry st ++ registry (snd (getOverview_map response \<lparr>registry = Map.empty, logged = [], slept = []\<rparr>))"
  by (simp add: getOverview_map_def Let_def WithLabelValues_Set_def split: sum.splits)

lemma getOverview_writes:
  "registry (snd (getOverview net h u p st)) =
     registry st ++ registry (snd (getOverview net h u p \<lparr>registry = Map.empty, logged = [], slept = []\<rparr>))"
proof (cases "net (h @ ''/api/overview'') u p")
  case (Responds b)
  show ?thesis
  proof (cases "snd (Decode_map b)")
    case None
    with Responds show ?thesis
      unfolding getOverview_unfold
      using getOverview_map_writes [of "fst (Decode_map b)" st] by simp
  next
    case (Some e)
    with Responds show ?thesis
      unfolding getOverview_unfold
      using getOverview_map_writes [of "fst (Decode_map b)" "st\<lparr>logged := logged st @ [log_Error e]\<rparr>"]
        getOverview_map_writes [of "fst (Decode_map b)" "\<lparr>registry = Map.empty, logged = [log_Error e], slept = []\<rparr>"]
      by simp
  qed
qed (simp_all add: getOverview_unfold)

lemma getNumberOfMessages_map_writes:
  "registry (snd (getNumberOfMessages_map response st)) =
     registry st ++ registry (snd (getNumberOfMessages_map response \<lparr>registry = Map.empty, logged = [], slept = []\<rparr>))"
  by (simp add: getNumberOfMessages_map_def WithLabelValues_Set_def split: list.splits sum.splits)

lemma getNumberOfMessages_writes:
  "registry (snd (getNumberOfMessages net h u p st)) =
     registry st ++ registry (snd (getNumberOfMessages net h u p \<lparr>registry = Map.empty, logged = [], slept = []\<rparr>))"
proof (cases "net (h @ ''/api/queues'') u p")
  case (Responds b)
  show ?thesis
  proof (cases "snd (Decode_maps b)")
    case None
    with Responds show ?thesis
      unfolding getNumberOfMessages_unfold
      using getNumberOfMessages_map_writes [of "fst (Decode_maps b)" st] by simp
  next
    case (Some e)
    with Responds show ?thesis
      unfolding getNumberOfMessages_unfold
      using getNumberOfMessages_map_writes [of "fst (Decode_maps b)" "st\<lparr>logged := logged st @ [log_Error e]\<rparr>"]
        getNumberOfMessages_map_writes [of "fst (Decode_maps b)" "\<lparr>registry = Map.empty, logged = [log_Error e], slept = []\<rparr>"]
      by simp
  qed
qed (simp_all add: getNumberOfMessages_unfold)

lemma requestData_registry:
  "registry (snd (requestData pd net node st)) =
     (if fst (getOverview net (Url node) (Uname node) (Password node) st) = Inr ()
      then registry (snd (getNumberOfMessages net (Url node) (Uname node) (Password node)
             (snd (getOverview net (Url node) (Uname node) (Password node) st))))
      else registry (snd (getOverview net (Url node) (Uname node) (Password node) st)))"
proof -
  obtain r1 st1 where ov: "getOverview net (Url node) (Uname node) (Password node) st = (r1, st1)"
    by (cases "getOverview net (Url node) (Uname node) (Password node) st")
  obtain r2 st2 where qs: "getNumberOfMessages net (Url node) (Uname node) (Password node) st1 = (r2, st2)"
    by (cases "getNumberOfMessages net (Url node) (Uname node) (Password node) st1")
  show ?thesis
    using ov qs
    by (cases r1; cases r2)
      (simp_all add: requestData_def requestData_body_def deferred_recover_def Sleep_def
        split: option.splits)
qed

lemma requestData_writes:
  "registry (snd (requestData pd net node st)) =
     registry st ++ registry (snd (requestData pd net node \<lparr>registry = Map.empty, logged = [], slept = []\<rparr>))"
proof -
  let ?E = "\<lparr>registry = Map.empty, logged = [], slept = []\<rparr> :: 'a state"
  let ?ov = "getOverview net (Url node) (Uname node) (Password node)"
  let ?qs = "getNumberOfMessages net (Url node) (Uname node) (Password node)"
  have same: "fst (?ov st) = Inr () \<longleftrightarrow> fst (?ov ?E) = Inr ()"
    by (simp add: getOverview_ok_iff)
  have o: "registry (snd (?ov st)) = registry st ++ registry (snd (?ov ?E))"
    by (rule getOverview_writes)
  have q1: "registry (snd (?qs (snd (?ov st)))) = registry (snd (?ov st)) ++ registry (snd (?qs ?E))"
    by (rule getNumberOfMessages_writes)
  have q2: "registry (snd (?qs (snd (?ov ?E)))) = registry (snd (?ov ?E)) ++ registry (snd (?qs ?E))"
    by (rule getNumberOfMessages_writes)
  show ?thesis
  proof (cases "fst (?ov st) = Inr ()")
    case True
    with same have "fst (?ov ?E) = Inr ()" by simp
    with True show ?thesis
      unfolding requestData_registry q1 q2 o by simp
  next
    case False
    with same have "fst (?ov ?E) \<noteq> Inr ()" by simp
    with False show ?thesis
      unfolding requestData_registry using o by simp
  qed
qed

lemma requestData_registry_cong:
  "registry st1 = registry st2 \<Longrightarrow>
   registry (snd (requestData pd net node st1)) = registry (snd (requestData pd net node st2))"
  using requestData_writes [of pd net node st1] requestData_writes [of pd net node st2] by simp

lemma requestData_overview_fetch_error:
  assumes "fetch_error (net (Url node @ ''/api/overview'') (Uname node) (Password node))"
  shows "registry (snd (requestData pd net node st)) = registry st"
proof -
  from assms have "registry (snd (getOverview net (Url node) (Uname node) (Password node) st)) = registry st
    \<and> fst (getOverview net (Url node) (Uname node) (Password node) st) \<noteq> Inr ()"
    by (cases "net (Url node @ ''/api/overview'') (Uname node) (Password node)")
      (simp_all add: getOverview_unfold)
  then show ?thesis
    by (simp add: requestData_registry)
qed

lemma getOverview_other_label:
  assumes "l \<noteq> overview_label (net (h @ ''/api/overview'') u p)"
  shows "registry (snd (getOverview net h u p st)) (m, l) = registry st (m, l)"
proof -
  have *: "registry (snd (getOverview_map response st1)) (m, l) = registry st1 (m, l)"
    if "l \<noteq> assert_string_ok (index response ''node'')" for response and st1 :: "'a state"
  proof (cases "getOverview_map response st1")
    case (Pair r st2)
    show ?thesis
    proof (cases r)
      case (Inl e)
      with Pair show ?thesis by (auto dest: getOverview_map_panic)
    next
      case (Inr v)
      with Pair getOverview_map_registry [of response st1 v st2 m l] that
      show ?thesis by simp
    qed
  qed
  show ?thesis
  proof (cases "net (h @ ''/api/overview'') u p")
    case (Responds b)
    with assms have "l \<noteq> assert_string_ok (index (fst (Decode_map b)) ''node'')"
      by (simp add: overview_label_def)
    with Responds show ?thesis
      unfolding getOverview_unfold
      by (simp add: * split: option.splits)
  qed (simp_all add: getOverview_unfold)
qed

lemma getNumberOfMessages_error_registry:
  assumes "queues_fails (net (h @ ''/api/queues'') u p)"
  shows "registry (snd (getNumberOfMessages net h u p st)) = registry st"
proof -
  have *: "registry (snd (getNumberOfMessages_map response st1)) = registry st1"
    if "\<not> queues_ok response" for response and st1 :: "'a state"
  proof (cases "getNumberOfMessages_map response st1")
    case (Pair r st2)
    with that getNumberOfMessages_map_ok_iff [of response st1] have "r \<noteq> Inr ()" by auto
    then obtain e where "r = Inl e" by (cases r) auto
    with Pair show ?thesis by (auto dest: getNumberOfMessages_map_panic)
  qed
  from assms show ?thesis
    unfolding getNumberOfMessages_unfold queues_fails_def
    by (simp add: * split: http.splits option.splits)
qed

lemma requestData_error_other_label:
  assumes "cycle_fails net node"
    and "l \<noteq> overview_label (net (Url node @ ''/api/overview'') (Uname node) (Password node))"
  shows "registry (snd (requestData pd net node st)) (m, l) = registry st (m, l)"
proof (cases "fst (getOverview net (Url node) (Uname node) (Password node) st) = Inr ()")
  note other = getOverview_other_label
    [where net = net and h = "Url node" and u = "Uname node" and p = "Password node", OF assms(2)]
  case True
  then have "\<not> overview_fails (net (Url node @ ''/api/overview'') (Uname node) (Password node))"
    by (simp add: getOverview_ok_iff)
  with assms(1) have "queues_fails (net (Url node @ ''/api/queues'') (Uname node) (Password node))"
    by (simp add: cycle_fails_def)
  with True show ?thesis
    by (simp add: requestData_registry getNumberOfMessages_error_registry other)
next
  note other = getOverview_other_label
    [where net = net and h = "Url node" and u = "Uname node" and p = "Password node", OF assms(2)]
  case False
  then show ?thesis
    by (simp add: requestData_registry other)
qed

lemma cycle_error_cases:
  "cycle_error net node \<Longrightarrow>
   cycle_fails net node
   \<or> range_error (net (Url node @ ''/api/overview'') (Uname node) (Password node))
   \<or> range_error (net (Url node @ ''/api/queues'') (Uname node) (Password node))"
  by (auto simp: cycle_error_def cycle_fails_def dest: overview_error_cases queues_error_cases)

lemma poll_never_panics: "fst (poll pd i node net P) = Inr ()"
proof -
  let ?st = "\<lparr>registry = p_registry P, logged = p_logged P, slept = p_slept P i\<rparr>"
  obtain r st' where "requestData pd net node ?st = (r, st')"
    by (cases "requestData pd net node ?st")
  with requestData_never_panics [of pd net node ?st] show ?thesis
    by (simp add: poll_def)
qed

lemma poll_registry:
  "p_registry (snd (poll pd i node net P)) =
     registry (snd (requestData pd net node
       \<lparr>registry = p_registry P, logged = p_logged P, slept = p_slept P i\<rparr>))"
  by (cases "requestData pd net node
       \<lparr>registry = p_registry P, logged = p_logged P, slept = p_slept P i\<rparr>")
    (simp add: poll_def)

lemma poll_slept:
  "p_slept (snd (poll pd i node net P)) j =
     (if j = i
      then p_slept P i @ [if cycle_fails net node then 10 * Second
                          else case pd (Node.Interval node) of None \<Rightarrow> 30 * Second | Some dt \<Rightarrow> dt]
      else p_slept P j)"
proof -
  let ?st = "\<lparr>registry = p_registry P, logged = p_logged P, slept = p_slept P i\<rparr>"
  obtain r st' where "requestData pd net node ?st = (r, st')"
    by (cases "requestData pd net node ?st")
  with requestData_slept [of pd net node ?st] show ?thesis
    by (simp add: poll_def)
qed

lemma run_schedule_never_panics:
  "fst (run_schedule pd sched P) = Inr ()"
proof (induction sched arbitrary: P)
  case Nil
  then show ?case by simp
next
  case (Cons a sched)
  obtain i node net where a: "a = (i, node, net)" by (cases a)
  obtain r P' where step: "poll pd i node net P = (r, P')"
    by (cases "poll pd i node net P")
  with poll_never_panics [of pd i node net P] have "r = Inr ()" by simp
  with a step Cons.IH [of P'] show ?case by simp
qed

lemma run_schedule_slept:
  "p_slept (snd (run_schedule pd sched P)) j =
     p_slept P j @ map (\<lambda>(i, node, net). if cycle_fails net node then 10 * Second
                          else case pd (Node.Interval node) of None \<Rightarrow> 30 * Second | Some dt \<Rightarrow> dt)
                     (filter (\<lambda>(i, node, net). i = j) sched)"
proof (induction sched arbitrary: P)
  case Nil
  then show ?case by simp
next
  case (Cons a sched)
  obtain i node net where a: "a = (i, node, net)" by (cases a)
  obtain r P' where step: "poll pd i node net P = (r, P')"
    by (cases "poll pd i node net P")
  with poll_never_panics [of pd i node net P] have r: "r = Inr ()" by simp
  from step poll_slept [of pd i node net P j]
  have "p_slept P' j =
     (if j = i
      then p_slept P i @ [if cycle_fails net node then 10 * Second
                          else case pd (Node.Interval node) of None \<Rightarrow> 30 * Second | Some dt \<Rightarrow> dt]
      else p_slept P j)"
    by simp
  with a step r Cons.IH [of P'] show ?case by simp
qed

lemma run_schedule_drop_failed:
  "p_registry P1 = p_registry P2 \<Longrightarrow>
   p_registry (snd (run_schedule pd sched P1)) =
   p_registry (snd (run_schedule pd
     (filter (\<lambda>(i, node, net). \<not> fetch_error (net (Url node @ ''/api/overview'') (Uname node) (Password node)))
        sched) P2))"
proof (induction sched arbitrary: P1 P2)
  case Nil
  then show ?case by simp
next
  case (Cons a sched)
  obtain i node net where a: "a = (i, node, net)" by (cases a)
  obtain r1 P1' where s1: "poll pd i node net P1 = (r1, P1')"
    by (cases "poll pd i node net P1")
  with poll_never_panics [of pd i node net P1] have r1: "r1 = Inr ()" by simp
  obtain r2 P2' where s2: "poll pd i node net P2 = (r2, P2')"
    by (cases "poll pd i node net P2")
  with poll_never_panics [of pd i node net P2] have r2: "r2 = Inr ()" by simp
  show ?case
  proof (cases "fetch_error (net (Url node @ ''/api/overview'') (Uname node) (Password node))")
    case True
    from s1 poll_registry [of pd i node net P1]
      requestData_overview_fetch_error [where net = net and node = node, OF True] Cons.prems
    have "p_registry P1' = p_registry P2" by simp
    from Cons.IH [OF this] a s1 r1 True show ?thesis by simp
  next
    case False
    have "registry (snd (requestData pd net node
             \<lparr>registry = p_registry P1, logged = p_logged P1, slept = p_slept P1 i\<rparr>))
        = registry (snd (requestData pd net node
             \<lparr>registry = p_registry P2, logged = p_logged P2, slept = p_slept P2 i\<rparr>))"
      by (rule requestData_registry_cong) (simp add: Cons.prems)
    with s1 s2 poll_registry [of pd i node net P1] poll_registry [of pd i node net P2]
    have "p_registry P1' = p_registry P2'" by simp
    from Cons.IH [OF this] a s1 r1 s2 r2 False show ?thesis by simp
  qed
qed

lemma getNumberOfMessages_other_vector:
  assumes "m \<noteq> messagesTotal"
  shows "registry (snd (getNumberOfMessages net h u p st)) (m, l) = registry st (m, l)"
proof -
  have *: "registry (snd (getNumberOfMessages_map response st1)) (m, l) = registry st1 (m, l)"
    for response and st1 :: "'a state"
    using assms
    by (simp add: getNumberOfMessages_map_def WithLabelValues_Set_def split: list.splits sum.splits)
  show ?thesis
    unfolding getNumberOfMessages_unfold
    by (simp add: * split: http.splits option.splits)
qed

lemma requestData_messagesTotal_error:
  assumes "cycle_fails net node"
  shows "registry (snd (requestData pd net node st)) (messagesTotal, l) = registry st (messagesTotal, l)"
proof (cases "fst (getOverview net (Url node) (Uname node) (Password node) st) = Inr ()")
  case True
  then have "\<not> overview_fails (net (Url node @ ''/api/overview'') (Uname node) (Password node))"
    by (simp add: getOverview_ok_iff)
  with assms have "queues_fails (net (Url node @ ''/api/queues'') (Uname node) (Password node))"
    by (simp add: cycle_fails_def)
  with True show ?thesis
    by (simp add: requestData_registry getNumberOfMessages_error_registry getOverview_messagesTotal)
next
  case False
  then show ?thesis
    by (simp add: requestData_registry getOverview_messagesTotal)
qed

lemma requestData_success:
  assumes ov: "net (Url node @ ''/api/overview'') (Uname node) (Password node)
      = Responds (Document (VMap response))"
    and ok: "overview_ok response"
    and qs: "net (Url node @ ''/api/queues'') (Uname node) (Password node)
      = Responds (Document (VSlice (map VMap queues)))"
    and ne: "queues \<noteq> []"
    and nq: "index (hd queues) ''node'' = VString nq"
    and xs: "map (\<lambda>q. index q ''messages'') queues = map VFloat64 xs"
  shows "\<not> cycle_fails net node"
    and "registry (snd (requestData pd net node st)) (messagesTotal, nq) = Some (foldl (+) 0 xs)"
    and "overview_field m = Some (g, f) \<Longrightarrow>
         registry (snd (requestData pd net node st)) (m, assert_string_ok (index response ''node''))
           = Some (case field response g f of None \<Rightarrow> 0 | Some v \<Rightarrow> v)"
proof -
  let ?h = "Url node" and ?u = "Uname node" and ?p = "Password node"
  obtain st1 where m1: "getOverview_map response st = (Inr (), st1)"
    using getOverview_map_ok [OF ok] by blast
  have g1: "getOverview net ?h ?u ?p st = (Inr (), st1)"
    using getOverview_Document [where net = net and h = ?h and u = ?u and p = ?p, OF ov, of st] m1
    by simp
  have g2: "getNumberOfMessages net ?h ?u ?p st1
      = (Inr (), st1\<lparr>registry := (registry st1)((messagesTotal, nq) \<mapsto> foldl (+) 0 xs)\<rparr>)"
    using getNumberOfMessages_Document [where net = net and h = ?h and u = ?u and p = ?p, OF qs, of st1]
      getNumberOfMessages_map_total [OF ne nq sum_messages_ok [OF xs, of 0], of st1]
    by simp
  have reg: "registry (snd (requestData pd net node st))
      = (registry st1)((messagesTotal, nq) \<mapsto> foldl (+) 0 xs)"
    using g1 g2 by (simp add: requestData_registry)
  from g1 getOverview_ok_iff [of net ?h ?u ?p st]
  have "\<not> overview_fails (net (?h @ ''/api/overview'') ?u ?p)" by simp
  moreover from g2 getNumberOfMessages_ok_iff [of net ?h ?u ?p st1]
  have "\<not> queues_fails (net (?h @ ''/api/queues'') ?u ?p)" by simp
  ultimately show "\<not> cycle_fails net node"
    by (simp add: cycle_fails_def)
  from reg show "registry (snd (requestData pd net node st)) (messagesTotal, nq) = Some (foldl (+) 0 xs)"
    by simp
  show "registry (snd (requestData pd net node st)) (m, assert_string_ok (index response ''node''))
           = Some (case field response g f of None \<Rightarrow> 0 | Some v \<Rightarrow> v)"
    if "overview_field m = Some (g, f)"
  proof -
    from that have "m \<noteq> messagesTotal" by auto
    with reg getOverview_map_registry [OF m1, of m "assert_string_ok (index response ''node'')"] that
    show ?thesis by simp
  qed
qed

section \<open>The claims\<close>

subsection \<open>C1: a full overview gives fifteen points\<close>

text \<open>
  Claim C1 says that a valid overview with every target field present yields exactly eleven
  points. \<^verbatim>\<open>getOverview\<close> sets fifteen vectors (lines 251--265: five from
  \<open>object_totals\<close>, three from \<open>queue_totals\<close>, seven from \<open>message_stats\<close>). On
  the full overview \<open>example_overview\<close>, from an empty registry, the registry ends with
  fifteen points, not eleven.
\<close>

theorem overview_eleven_points_counterexample:
  "fst (getOverview (network_of (VMap example_overview) example_queues) ''http://a'' ''guest'' ''guest'' st0)
     = Inr ()
   \<and> card (dom (registry (snd (getOverview (network_of (VMap example_overview) example_queues)
        ''http://a'' ''guest'' ''guest'' st0)))) = 15
   \<and> card (dom (registry (snd (getOverview (network_of (VMap example_overview) example_queues)
        ''http://a'' ''guest'' ''guest'' st0)))) \<noteq> 11"
proof -
  have net: "network_of (VMap example_overview) example_queues (''http://a'' @ ''/api/overview'') ''guest'' ''guest''
      = Responds (Document (VMap example_overview))"
    by (simp add: network_of_def)
  obtain st' where ok: "getOverview_map example_overview st0 = (Inr (), st')"
    using getOverview_map_ok [OF example_overview_ok] by blast
  have "dom (registry st') = (\<lambda>m. (m, assert_string_ok (index example_overview ''node''))) ` {m. m \<noteq> messagesTotal}"
    by (rule getOverview_map_dom [OF ok]) (simp add: st0_def)
  moreover have "inj_on (\<lambda>m. (m, assert_string_ok (index example_overview ''node''))) {m. m \<noteq> messagesTotal}"
    by (simp add: inj_on_def)
  ultimately have "card (dom (registry st')) = 15"
    by (simp add: card_image card_overview_vectors)
  moreover have "getOverview (network_of (VMap example_overview) example_queues) ''http://a'' ''guest'' ''guest'' st0
      = getOverview_map example_overview st0"
    by (rule getOverview_Document
      [where net = "network_of (VMap example_overview) example_queues" and h = "''http://a''", OF net])
  ultimately show ?thesis
    using ok by simp
qed

text \<open>
  Claim C1 as amended: for every valid overview (the three groups are objects, every value
  of \<open>object_totals\<close> is a number) in which every target field is present and numeric
  and \<open>node\<close> is the string \<open>n\<close>, \<^verbatim>\<open>getOverview\<close> succeeds and, from an empty
  registry, leaves exactly fifteen points; each has the label \<open>n\<close> and a \<^verbatim>\<open>Name\<close>
  among the documented ones, and the point of each vector holds the value of its field.
\<close>

theorem overview_full_fifteen_points:
  assumes "net (h @ ''/api/overview'') u p = Responds (Document (VMap response))"
    and "overview_ok response"
    and "index response ''node'' = VString n"
    and "\<forall>m g f. overview_field m = Some (g, f) \<longrightarrow> field response g f \<noteq> None"
    and "registry st = Map.empty"
  shows "\<exists>st'. getOverview net h u p st = (Inr (), st')
           \<and> card (dom (registry st')) = 15
           \<and> (\<forall>(m, l) \<in> dom (registry st'). l = n \<and> opts_Name m \<in> set documented_names)
           \<and> (\<forall>m g f. overview_field m = Some (g, f) \<longrightarrow> registry st' (m, n) = field response g f)"
proof -
  from assms(2) obtain st' where ok: "getOverview_map response st = (Inr (), st')"
    using getOverview_map_ok by blast
  from assms(3) have label: "assert_string_ok (index response ''node'') = n" by simp
  have dom: "dom (registry st') = (\<lambda>m. (m, n)) ` {m. m \<noteq> messagesTotal}"
    using getOverview_map_dom [OF ok assms(5)] label by simp
  have "inj_on (\<lambda>m. (m, n)) {m. m \<noteq> messagesTotal}"
    by (simp add: inj_on_def)
  then have card: "card (dom (registry st')) = 15"
    unfolding dom by (simp add: card_image card_overview_vectors)
  have names: "\<forall>(m, l) \<in> dom (registry st'). l = n \<and> opts_Name m \<in> set documented_names"
    unfolding dom by (auto simp: opts_Name_documented)
  have vals: "registry st' (m, n) = field response g f"
    if "overview_field m = Some (g, f)" for m g f
  proof -
    from that have "m \<noteq> messagesTotal" by auto
    moreover from that assms(4) have "field response g f \<noteq> None" by blast
    then obtain x where "field response g f = Some x" by auto
    ultimately show ?thesis
      using getOverview_map_registry [OF ok, of m n] label that by simp
  qed
  have "getOverview net h u p st = (Inr (), st')"
    using getOverview_Document [where net = net and h = h and u = u and p = p, OF assms(1), of st] ok
    by simp
  with card names vals show ?thesis
    by blast
qed

theorem overview_full_fifteen_points_witness:
  "fst (getOverview (network_of (VMap example_overview) example_queues) ''http://a'' ''guest'' ''guest'' st0)
     = Inr ()
   \<and> card (dom (registry (snd (getOverview (network_of (VMap example_overview) example_queues)
        ''http://a'' ''guest'' ''guest'' st0)))) = 15
   \<and> registry (snd (getOverview (network_of (VMap example_overview) example_queues)
        ''http://a'' ''guest'' ''guest'' st0)) (channelsTotal, ''rabbit@a'') = Some 1
   \<and> registry (snd (getOverview (network_of (VMap example_overview) example_queues)
        ''http://a'' ''guest'' ''guest'' st0)) (messageStatsDeliverNoAckCounter, ''rabbit@a'') = Some 15
   \<and> opts_Name channelsTotal = ''channels_total''
   \<and> opts_Name messageStatsDeliverNoAckCounter = ''messages_delivered_no_ack''"
proof -
  have net: "network_of (VMap example_overview) example_queues (''http://a'' @ ''/api/overview'') ''guest'' ''guest''
      = Responds (Document (VMap example_overview))"
    by (simp add: network_of_def)
  have node: "index example_overview ''node'' = VString ''rabbit@a''"
    by (simp add: example_overview_def index_def)
  have fields: "\<forall>m g f. overview_field m = Some (g, f) \<longrightarrow> field example_overview g f \<noteq> None"
    using example_overview_fields by blast
  have empty: "registry st0 = Map.empty"
    by (simp add: st0_def)
  from overview_full_fifteen_points
    [where net = "network_of (VMap example_overview) example_queues" and h = "''http://a''"
       and u = "''guest''" and p = "''guest''",
     OF net example_overview_ok node fields empty]
  obtain st' where st': "getOverview (network_of (VMap example_overview) example_queues)
        ''http://a'' ''guest'' ''guest'' st0 = (Inr (), st')"
    and card: "card (dom (registry st')) = 15"
    and vals: "\<forall>m g f. overview_field m = Some (g, f) \<longrightarrow>
        registry st' (m, ''rabbit@a'') = field example_overview g f"
    by blast
  have t1: "overview_field channelsTotal = Some (''object_totals'', ''channels'')" by simp
  have t2: "overview_field messageStatsDeliverNoAckCounter = Some (''message_stats'', ''deliver_no_ack'')"
    by simp
  have f1: "field example_overview ''object_totals'' ''channels'' = Some 1"
    by (simp add: field_def example_overview_def index_def)
  have f2: "field example_overview ''message_stats'' ''deliver_no_ack'' = Some 15"
    by (simp add: field_def example_overview_def index_def)
  from vals t1 have "registry st' (channelsTotal, ''rabbit@a'')
      = field example_overview ''object_totals'' ''channels''"
    by blast
  with f1 have r1: "registry st' (channelsTotal, ''rabbit@a'') = Some 1" by simp
  from vals t2 have "registry st' (messageStatsDeliverNoAckCounter, ''rabbit@a'')
      = field example_overview ''message_stats'' ''deliver_no_ack''"
    by blast
  with f2 have r2: "registry st' (messageStatsDeliverNoAckCounter, ''rabbit@a'') = Some 15" by simp
  from st' card r1 r2 show ?thesis by simp
qed

subsection \<open>C2: a missing field is written as zero\<close>

text \<open>
  Claim C2 says that for a missing or non-numeric target field no point is emitted and
  the prior registry value stays. The local maps of \<^verbatim>\<open>getOverview\<close> give the zero value
  for a missing key, and all fifteen \<^verbatim>\<open>Set\<close> calls are made without a test. With
  \<open>queue_totals.messages\<close> missing and \<open>message_stats.publish\<close> a string, the prior value
  42 of \<^verbatim>\<open>messagesCounter\<close> is replaced by 0, and \<^verbatim>\<open>messageStatsPublishCounter\<close> is set
  to 0.
\<close>

theorem overview_missing_field_counterexample:
  "field overview_partial ''queue_totals'' ''messages'' = None
   \<and> field overview_partial ''message_stats'' ''publish'' = None
   \<and> registry st_prior (messagesCounter, ''rabbit@a'') = Some 42
   \<and> fst (getOverview (network_of (VMap overview_partial) example_queues) ''http://a'' ''guest'' ''guest'' st_prior)
       = Inr ()
   \<and> registry (snd (getOverview (network_of (VMap overview_partial) example_queues)
        ''http://a'' ''guest'' ''guest'' st_prior)) (messagesCounter, ''rabbit@a'') = Some 0
   \<and> registry (snd (getOverview (network_of (VMap overview_partial) example_queues)
        ''http://a'' ''guest'' ''guest'' st_prior)) (messageStatsPublishCounter, ''rabbit@a'') = Some 0"
proof -
  have net: "network_of (VMap overview_partial) example_queues (''http://a'' @ ''/api/overview'') ''guest'' ''guest''
      = Responds (Document (VMap overview_partial))"
    by (simp add: network_of_def)
  obtain st' where ok: "getOverview_map overview_partial st_prior = (Inr (), st')"
    using getOverview_map_ok [OF overview_partial_ok] by blast
  have node: "assert_string_ok (index overview_partial ''node'') = ''rabbit@a''"
    by (simp add: overview_partial_def index_def)
  have f1: "field overview_partial ''queue_totals'' ''messages'' = None"
    by (simp add: field_def overview_partial_def index_def)
  have f2: "field overview_partial ''message_stats'' ''publish'' = None"
    by (simp add: field_def overview_partial_def index_def)
  from getOverview_map_registry [OF ok, of messagesCounter "''rabbit@a''"] node f1
  have r1: "registry st' (messagesCounter, ''rabbit@a'') = Some 0" by simp
  from getOverview_map_registry [OF ok, of messageStatsPublishCounter "''rabbit@a''"] node f2
  have r2: "registry st' (messageStatsPublishCounter, ''rabbit@a'') = Some 0" by simp
  have "getOverview (network_of (VMap overview_partial) example_queues) ''http://a'' ''guest'' ''guest'' st_prior
      = getOverview_map overview_partial st_prior"
    by (rule getOverview_Document
      [where net = "network_of (VMap overview_partial) example_queues" and h = "''http://a''", OF net])
  moreover have "registry st_prior (messagesCounter, ''rabbit@a'') = Some 42"
    by (simp add: st_prior_def)
  ultimately show ?thesis
    using ok r1 r2 f1 f2 by simp
qed

text \<open>
  Claim C2 as amended: for every overview on which the mapping succeeds (the three groups
  are objects and every value of \<open>object_totals\<close> is a number), a target field that is
  missing from its group, or is not a number in \<open>queue_totals\<close> or \<open>message_stats\<close>,
  makes \<^verbatim>\<open>getOverview\<close> set its vector to the zero value 0 under the node label, whatever
  the registry held before.
\<close>

theorem overview_missing_field_writes_zero:
  assumes "net (h @ ''/api/overview'') u p = Responds (Document (VMap response))"
    and "overview_ok response"
    and "overview_field m = Some (g, f)"
    and "field response g f = None"
  shows "\<exists>st'. getOverview net h u p st = (Inr (), st')
           \<and> registry st' (m, assert_string_ok (index response ''node'')) = Some 0"
proof -
  from assms(2) obtain st' where ok: "getOverview_map response st = (Inr (), st')"
    using getOverview_map_ok by blast
  from assms(3) have "m \<noteq> messagesTotal" by auto
  with getOverview_map_registry [OF ok, of m "assert_string_ok (index response ''node'')"] assms(3,4)
  have "registry st' (m, assert_string_ok (index response ''node'')) = Some 0" by simp
  moreover have "getOverview net h u p st = (Inr (), st')"
    using getOverview_Document [where net = net and h = h and u = u and p = p, OF assms(1), of st] ok
    by simp
  ultimately show ?thesis
    by blast
qed

theorem overview_missing_field_writes_zero_witness:
  "field overview_partial ''queue_totals'' ''messages'' = None
   \<and> (\<exists>st'. getOverview (network_of (VMap overview_partial) example_queues) ''http://a'' ''guest'' ''guest'' st_prior
              = (Inr (), st')
           \<and> registry st' (messagesCounter, ''rabbit@a'') = Some 0)"
proof -
  have net: "network_of (VMap overview_partial) example_queues (''http://a'' @ ''/api/overview'') ''guest'' ''guest''
      = Responds (Document (VMap overview_partial))"
    by (simp add: network_of_def)
  have target: "overview_field messagesCounter = Some (''queue_totals'', ''messages'')"
    by simp
  have missing: "field overview_partial ''queue_totals'' ''messages'' = None"
    by (simp add: field_def overview_partial_def index_def)
  have node: "assert_string_ok (index overview_partial ''node'') = ''rabbit@a''"
    by (simp add: overview_partial_def index_def)
  from overview_missing_field_writes_zero
    [where net = "network_of (VMap overview_partial) example_queues" and h = "''http://a''"
       and u = "''guest''" and p = "''guest''" and st = st_prior,
     OF net overview_partial_ok target missing] node missing
  show ?thesis by simp
qed

subsection \<open>C3: an empty queue array is a recovered panic\<close>

text \<open>
  Claim C3. On an empty queue array, \<^verbatim>\<open>response[0]\<close> (line 271) is the run-time panic
  ``index out of range'', which Go defines: \<^verbatim>\<open>getNumberOfMessages\<close> fails with it and
  leaves the state as it was. The panic does not leave \<^verbatim>\<open>requestData\<close>, whose deferred
  function recovers it: the iteration returns normally after the 10 second sleep.
\<close>

theorem empty_queues_defined_failure:
  assumes "net (Url node @ ''/api/queues'') (Uname node) (Password node) = Responds (Document (VSlice []))"
  shows "getNumberOfMessages net (Url node) (Uname node) (Password node) st
           = (Inl (RuntimeError IndexOutOfRange), st)
       \<and> fst (requestData ParseDuration net node st) = Inr ()
       \<and> slept (snd (requestData ParseDuration net node st)) = slept st @ [10 * Second]"
proof -
  from assms have "queues_fails (net (Url node @ ''/api/queues'') (Uname node) (Password node))"
    by (simp add: queues_fails_def queues_ok_def)
  then have "cycle_fails net node"
    by (simp add: cycle_fails_def)
  moreover from assms have "getNumberOfMessages net (Url node) (Uname node) (Password node) st
           = (Inl (RuntimeError IndexOutOfRange), st)"
    by (simp add: getNumberOfMessages_unfold getNumberOfMessages_map_def)
  ultimately show ?thesis
    by (simp add: requestData_never_panics requestData_slept)
qed

theorem empty_queues_defined_failure_witness:
  "network_of (VMap example_overview) (VSlice []) (Url node_a @ ''/api/queues'') (Uname node_a) (Password node_a)
     = Responds (Document (VSlice []))
   \<and> getNumberOfMessages (network_of (VMap example_overview) (VSlice [])) ''http://a'' ''guest'' ''guest'' st0
       = (Inl (RuntimeError IndexOutOfRange), st0)
   \<and> fst (requestData ParseDuration_60s (network_of (VMap example_overview) (VSlice [])) node_a st0) = Inr ()
   \<and> slept (snd (requestData ParseDuration_60s (network_of (VMap example_overview) (VSlice [])) node_a st0))
       = [10000000000]"
proof -
  have net: "network_of (VMap example_overview) (VSlice []) (Url node_a @ ''/api/queues'') (Uname node_a) (Password node_a)
     = Responds (Document (VSlice []))"
    by (simp add: network_of_def node_a_def)
  from empty_queues_defined_failure
    [where net = "network_of (VMap example_overview) (VSlice [])" and node = node_a
       and st = st0 and ParseDuration = ParseDuration_60s, OF net] net
  show ?thesis
    by (simp add: node_a_def st0_def Second_def)
qed

subsection \<open>C4: the total of the messages\<close>

text \<open>
  Claim C4. For every non-empty queue array of objects in which the first has a string
  \<open>n\<close> under \<open>node\<close> and each has a number under \<open>messages\<close> (the numbers \<open>xs\<close>, in
  order), \<^verbatim>\<open>getNumberOfMessages\<close> succeeds and changes the state in one place: the point
  of \<^verbatim>\<open>messagesTotal\<close> for the label \<open>n\<close> becomes the sum of \<open>xs\<close>, added up from 0.0
  in the order of the array. The witness is the example of the specification: the
  messages 3 and 7 of node \<^verbatim>\<open>rabbit@a\<close> give 10.
\<close>

theorem getNumberOfMessages_total:
  assumes "net (h @ ''/api/queues'') u p = Responds (Document (VSlice (map VMap response)))"
    and "response \<noteq> []"
    and "index (hd response) ''node'' = VString n"
    and "map (\<lambda>q. index q ''messages'') response = map VFloat64 xs"
  shows "getNumberOfMessages net h u p st
           = (Inr (), st\<lparr>registry := (registry st)((messagesTotal, n) \<mapsto> foldl (+) 0 xs)\<rparr>)"
  using assms
  by (simp add: getNumberOfMessages_Document getNumberOfMessages_map_total sum_messages_ok)

theorem getNumberOfMessages_total_witness:
  "getNumberOfMessages (network_of (VMap example_overview) example_queues) ''http://a'' ''guest'' ''guest'' st0
     = (Inr (), st0\<lparr>registry := [(messagesTotal, ''rabbit@a'') \<mapsto> 10]\<rparr>)"
proof -
  let ?q1 = "fmap_of_list [(''node'', VString ''rabbit@a''), (''messages'', VFloat64 (3::real))]"
  let ?q2 = "fmap_of_list [(''node'', VString ''rabbit@a''), (''messages'', VFloat64 (7::real))]"
  have net: "network_of (VMap example_overview) example_queues (''http://a'' @ ''/api/queues'') ''guest'' ''guest''
     = Responds (Document (VSlice (map VMap [?q1, ?q2])))"
    by (simp add: network_of_def example_queues_def)
  have ne: "[?q1, ?q2] \<noteq> []" by simp
  have node: "index (hd [?q1, ?q2]) ''node'' = VString ''rabbit@a''"
    by (simp add: index_def)
  have msgs: "map (\<lambda>q. index q ''messages'') [?q1, ?q2] = map VFloat64 [3, 7]"
    by (simp add: index_def)
  from getNumberOfMessages_total
    [where net = "network_of (VMap example_overview) example_queues" and h = "''http://a''"
       and u = "''guest''" and p = "''guest''" and st = st0, OF net ne node msgs]
  show ?thesis
    by (simp add: st0_def)
qed

subsection \<open>C5: errors and the ten second sleep\<close>

text \<open>
  Claim C5 says that every error arising in fetch, decode or map sends the loop to the
  10 second sleep. \<^verbatim>\<open>decodeObj\<close> and \<^verbatim>\<open>decodeObjArray\<close> only log the error of the decoder
  (lines 283--285 and 292--294) and return what it decoded. For an overview in which
  \<open>message_stats.publish\<close> is \<^verbatim>\<open>1e999\<close> the decoder returns an error and the map with nil
  under \<open>publish\<close>; nothing panics, the error is logged, and the iteration sleeps the 60
  seconds of the node's interval, not 10.
\<close>

theorem decode_range_error_counterexample:
  "snd (Decode_map (DocumentOutOfRange (VMap overview_nil_publish))) = Some DecodeError
   \<and> cycle_error (network_bodies (DocumentOutOfRange (VMap overview_nil_publish)) (Document example_queues)) node_a
   \<and> fst (requestData ParseDuration_60s
        (network_bodies (DocumentOutOfRange (VMap overview_nil_publish)) (Document example_queues)) node_a st0)
       = Inr ()
   \<and> logged (snd (requestData ParseDuration_60s
        (network_bodies (DocumentOutOfRange (VMap overview_nil_publish)) (Document example_queues)) node_a st0))
       = [log_Error DecodeError]
   \<and> slept (snd (requestData ParseDuration_60s
        (network_bodies (DocumentOutOfRange (VMap overview_nil_publish)) (Document example_queues)) node_a st0))
       = [60000000000]
   \<and> slept (snd (requestData ParseDuration_60s
        (network_bodies (DocumentOutOfRange (VMap overview_nil_publish)) (Document example_queues)) node_a st0))
       \<noteq> [10000000000]"
proof -
  let ?N = "network_bodies (DocumentOutOfRange (VMap overview_nil_publish)) (Document example_queues)"
  have ok: "overview_ok overview_nil_publish"
    by (simp add: overview_ok_def overview_nil_publish_def index_def fmpred_fmupd_eval)
  have qok: "queues_ok (fst (Decode_maps (Document example_queues)))"
    by (simp add: example_queues_def queues_ok_def index_def)
  have err: "cycle_error ?N node_a"
    by (simp add: cycle_error_def overview_error_def network_bodies_def node_a_def)
  have nofail: "\<not> cycle_fails ?N node_a"
    using ok qok
    by (simp add: cycle_fails_def overview_fails_def queues_fails_def network_bodies_def node_a_def)
  have sl: "slept (snd (requestData ParseDuration_60s ?N node_a st0)) = [60000000000]"
    using nofail
    by (simp add: requestData_slept ParseDuration_60s_def node_a_def st0_def Second_def)
  obtain st1 where ov: "getOverview_map overview_nil_publish
       (st0\<lparr>logged := logged st0 @ [log_Error DecodeError]\<rparr>) = (Inr (), st1)"
    using getOverview_map_ok [OF ok] by blast
  have l1: "logged st1 = [log_Error DecodeError]"
    using getOverview_map_logged [of overview_nil_publish "st0\<lparr>logged := logged st0 @ [log_Error DecodeError]\<rparr>"] ov
    by (simp add: st0_def)
  have gov: "getOverview ?N ''http://a'' ''guest'' ''guest'' st0 = (Inr (), st1)"
    using ov by (simp add: getOverview_unfold network_bodies_def)
  obtain r2 st2 where qs: "getNumberOfMessages ?N ''http://a'' ''guest'' ''guest'' st1 = (r2, st2)"
    by (cases "getNumberOfMessages ?N ''http://a'' ''guest'' ''guest'' st1")
  have r2: "r2 = Inr ()"
    using qs qok getNumberOfMessages_ok_iff [of ?N "''http://a''" "''guest''" "''guest''" st1]
    by (simp add: queues_fails_def network_bodies_def)
  have "\<not> queues_error (?N (''http://a'' @ ''/api/queues'') ''guest'' ''guest'')"
    using qok by (simp add: queues_error_def network_bodies_def example_queues_def)
  from getNumberOfMessages_logged
    [where net = ?N and h = "''http://a''" and u = "''guest''" and p = "''guest''", OF this, of st1] qs
  have l2: "logged st2 = logged st1" by simp
  have lg: "logged (snd (requestData ParseDuration_60s ?N node_a st0)) = [log_Error DecodeError]"
    using gov qs r2 l1 l2
    by (simp add: requestData_def requestData_body_def deferred_recover_def Sleep_def
        node_a_def ParseDuration_60s_def)
  from err sl lg show ?thesis
    by (simp add: requestData_never_panics)
qed

text \<open>
  Claim C5 as amended. \<^verbatim>\<open>requestData\<close> never lets a panic out: it always returns normally.
  When the iteration fails (a fetch brings no response, or what the decoder leaves makes
  the mapping panic: \<open>cycle_fails\<close>), its one sleep is the fixed 10 seconds. That is so
  for every error arising in fetch, decode or map (\<open>cycle_error\<close>) unless a response
  holds a number outside the range of float64. The loop goes on: run against any list of
  networks it performs one iteration, and one sleep, for each of them, never ending with
  a panic, and the sleep of each failed iteration is 10 seconds.
\<close>

theorem poll_error_cooldown:
  "fst (requestData ParseDuration net node st) = Inr ()
   \<and> (cycle_fails net node \<longrightarrow>
        slept (snd (requestData ParseDuration net node st)) = slept st @ [10 * Second])
   \<and> (cycle_error net node
        \<and> \<not> range_error (net (Url node @ ''/api/overview'') (Uname node) (Password node))
        \<and> \<not> range_error (net (Url node @ ''/api/queues'') (Uname node) (Password node)) \<longrightarrow>
        slept (snd (requestData ParseDuration net node st)) = slept st @ [10 * Second])
   \<and> fst (runRequestLoop ParseDuration node nets st) = Inr ()
   \<and> length (slept (snd (runRequestLoop ParseDuration node nets st))) = length (slept st) + length nets
   \<and> (\<forall>i < length nets. cycle_fails (nets ! i) node \<longrightarrow>
        slept (snd (runRequestLoop ParseDuration node nets st)) ! (length (slept st) + i) = 10 * Second)"
proof -
  have loop: "slept (snd (runRequestLoop ParseDuration node nets st)) =
       slept st @ map (\<lambda>net. if cycle_fails net node then 10 * Second
                              else case ParseDuration (Node.Interval node) of None \<Rightarrow> 30 * Second | Some dt \<Rightarrow> dt) nets"
    using runRequestLoop_slept [of ParseDuration node nets st] by simp
  have fails: "cycle_fails net node"
    if "cycle_error net node"
      and "\<not> range_error (net (Url node @ ''/api/overview'') (Uname node) (Password node))"
      and "\<not> range_error (net (Url node @ ''/api/queues'') (Uname node) (Password node))"
    using cycle_error_cases [OF that(1)] that(2,3) by blast
  show ?thesis
    using runRequestLoop_slept [of ParseDuration node nets st] fails
    by (auto simp: requestData_never_panics requestData_slept loop nth_append)
qed

theorem poll_error_cooldown_witness:
  "cycle_fails (network_of (VMap overview_bad) example_queues) node_a
   \<and> cycle_error (network_of (VMap example_overview) example_queues) node_b
   \<and> \<not> range_error (network_of (VMap example_overview) example_queues
          (Url node_b @ ''/api/overview'') (Uname node_b) (Password node_b))
   \<and> \<not> range_error (network_of (VMap example_overview) example_queues
          (Url node_b @ ''/api/queues'') (Uname node_b) (Password node_b))
   \<and> slept (snd (requestData ParseDuration_60s (network_of (VMap example_overview) example_queues) node_b st0))
       = [10000000000]
   \<and> fst (requestData ParseDuration_60s (network_of (VMap overview_bad) example_queues) node_a st0) = Inr ()
   \<and> slept (snd (requestData ParseDuration_60s (network_of (VMap overview_bad) example_queues) node_a st0))
       = [10000000000]
   \<and> fst (runRequestLoop ParseDuration_60s node_a
        [network_of (VMap overview_bad) example_queues, network_of (VMap example_overview) example_queues] st0) = Inr ()
   \<and> length (slept (snd (runRequestLoop ParseDuration_60s node_a
        [network_of (VMap overview_bad) example_queues, network_of (VMap example_overview) example_queues] st0))) = 2
   \<and> slept (snd (runRequestLoop ParseDuration_60s node_a
        [network_of (VMap overview_bad) example_queues, network_of (VMap example_overview) example_queues] st0)) ! 0
       = 10000000000"
proof -
  have bad: "cycle_fails (network_of (VMap overview_bad) example_queues) node_a"
    by (simp add: cycle_fails_def overview_fails_def network_of_def node_a_def
        overview_ok_def overview_bad_def index_def fmpred_fmupd_eval)
  have b: "cycle_error (network_of (VMap example_overview) example_queues) node_b"
    by (simp add: cycle_error_def overview_error_def network_of_def node_b_def)
  have r1: "\<not> range_error (network_of (VMap example_overview) example_queues
          (Url node_b @ ''/api/overview'') (Uname node_b) (Password node_b))"
    by (simp add: network_of_def node_b_def)
  have r2: "\<not> range_error (network_of (VMap example_overview) example_queues
          (Url node_b @ ''/api/queues'') (Uname node_b) (Password node_b))"
    by (simp add: network_of_def node_b_def)
  from poll_error_cooldown
    [of ParseDuration_60s "network_of (VMap example_overview) example_queues" node_b st0 "[]"]
    b r1 r2
  have 1: "slept (snd (requestData ParseDuration_60s (network_of (VMap example_overview) example_queues) node_b st0))
       = [10000000000]"
    by (simp add: st0_def Second_def)
  from poll_error_cooldown
    [of ParseDuration_60s "network_of (VMap overview_bad) example_queues" node_a st0
        "[network_of (VMap overview_bad) example_queues, network_of (VMap example_overview) example_queues]"]
    bad
  have 2: "fst (requestData ParseDuration_60s (network_of (VMap overview_bad) example_queues) node_a st0) = Inr ()
   \<and> slept (snd (requestData ParseDuration_60s (network_of (VMap overview_bad) example_queues) node_a st0))
       = [10000000000]
   \<and> fst (runRequestLoop ParseDuration_60s node_a
        [network_of (VMap overview_bad) example_queues, network_of (VMap example_overview) example_queues] st0) = Inr ()
   \<and> length (slept (snd (runRequestLoop ParseDuration_60s node_a
        [network_of (VMap overview_bad) example_queues, network_of (VMap example_overview) example_queues] st0))) = 2
   \<and> slept (snd (runRequestLoop ParseDuration_60s node_a
        [network_of (VMap overview_bad) example_queues, network_of (VMap example_overview) example_queues] st0)) ! 0
       = 10000000000"
    by (simp add: st0_def Second_def)
  from bad b r1 r2 1 2 show ?thesis by blast
qed

subsection \<open>C6: the interval of a node\<close>

text \<open>
  Claim C6. \<^verbatim>\<open>updateNodesStats\<close> starts each loop with the node's own interval string if it
  is not empty and with the global one otherwise. An iteration without an error returns
  normally and sleeps once: for the duration parsed from the node's interval string, with
  nothing logged, or, when the string does not parse, for 30 seconds after logging a
  warning.
\<close>

theorem effective_interval:
  "(Nodes config = Some nodes \<longrightarrow>
      updateNodesStats config =
        Inr (map (\<lambda>node. node\<lparr>Node.Interval :=
                     if Node.Interval node = [] then Config.Interval config
                     else Node.Interval node\<rparr>) nodes))
   \<and> (\<not> cycle_error net node \<longrightarrow>
        fst (requestData ParseDuration net node st) = Inr ()
        \<and> (\<forall>dt. ParseDuration (Node.Interval node) = Some dt \<longrightarrow>
              slept (snd (requestData ParseDuration net node st)) = slept st @ [dt]
              \<and> logged (snd (requestData ParseDuration net node st)) = logged st)
        \<and> (ParseDuration (Node.Interval node) = None \<longrightarrow>
              slept (snd (requestData ParseDuration net node st)) = slept st @ [30 * Second]
              \<and> logged (snd (requestData ParseDuration net node st))
                  = logged st @ [log_Warn ParseDurationError]))"
proof (intro conjI impI)
  assume "Nodes config = Some nodes"
  moreover have "(\<lambda>node. if length (Node.Interval node) = 0
                           then node\<lparr>Node.Interval := Config.Interval config\<rparr> else node)
      = (\<lambda>node. node\<lparr>Node.Interval :=
                     if Node.Interval node = [] then Config.Interval config
                     else Node.Interval node\<rparr>)"
    by (rule ext) simp
  ultimately show "updateNodesStats config =
        Inr (map (\<lambda>node. node\<lparr>Node.Interval :=
                     if Node.Interval node = [] then Config.Interval config
                     else Node.Interval node\<rparr>) nodes)"
    by (simp add: updateNodesStats_def)
next
  show "fst (requestData ParseDuration net node st) = Inr ()"
    by (rule requestData_never_panics)
next
  assume ok: "\<not> cycle_error net node"
  then have "\<not> cycle_fails net node"
    using cycle_fails_error by blast
  with ok show "\<forall>dt. ParseDuration (Node.Interval node) = Some dt \<longrightarrow>
              slept (snd (requestData ParseDuration net node st)) = slept st @ [dt]
              \<and> logged (snd (requestData ParseDuration net node st)) = logged st"
    by (simp add: requestData_slept requestData_logged)
next
  assume ok: "\<not> cycle_error net node" and "ParseDuration (Node.Interval node) = None"
  moreover from ok have "\<not> cycle_fails net node"
    using cycle_fails_error by blast
  ultimately show "slept (snd (requestData ParseDuration net node st)) = slept st @ [30 * Second]"
    by (simp add: requestData_slept)
next
  assume ok: "\<not> cycle_error net node" and "ParseDuration (Node.Interval node) = None"
  then show "logged (snd (requestData ParseDuration net node st))
                  = logged st @ [log_Warn ParseDurationError]"
    by (simp add: requestData_logged)
qed

theorem effective_interval_witness:
  "Nodes example_config = Some [node_a, node_b\<lparr>Node.Interval := ''''\<rparr>]
   \<and> updateNodesStats example_config = Inr [node_a, node_b\<lparr>Node.Interval := ''30s''\<rparr>]
   \<and> \<not> cycle_error (network_of (VMap example_overview) example_queues) node_a
   \<and> ParseDuration_60s (Node.Interval node_a) = Some 60000000000
   \<and> slept (snd (requestData ParseDuration_60s (network_of (VMap example_overview) example_queues) node_a st0))
       = [60000000000]
   \<and> ParseDuration_60s (Node.Interval (node_a\<lparr>Node.Interval := ''soon''\<rparr>)) = None
   \<and> \<not> cycle_error (network_of (VMap example_overview) example_queues) (node_a\<lparr>Node.Interval := ''soon''\<rparr>)
   \<and> slept (snd (requestData ParseDuration_60s (network_of (VMap example_overview) example_queues)
        (node_a\<lparr>Node.Interval := ''soon''\<rparr>) st0)) = [30000000000]
   \<and> logged (snd (requestData ParseDuration_60s (network_of (VMap example_overview) example_queues)
        (node_a\<lparr>Node.Interval := ''soon''\<rparr>) st0)) = [log_Warn ParseDurationError]"
proof -
  have ok2: "\<not> cycle_error (network_of (VMap example_overview) example_queues) (node_a\<lparr>Node.Interval := ''soon''\<rparr>)"
    using example_cycle_ok by (simp add: cycle_error_def)
  have pd1: "ParseDuration_60s (Node.Interval node_a) = Some 60000000000"
    by (simp add: ParseDuration_60s_def node_a_def Second_def)
  have pd2: "ParseDuration_60s (Node.Interval (node_a\<lparr>Node.Interval := ''soon''\<rparr>)) = None"
    by (simp add: ParseDuration_60s_def)
  have cfg: "Nodes example_config = Some [node_a, node_b\<lparr>Node.Interval := ''''\<rparr>]"
    by (simp add: example_config_def)
  from effective_interval
    [of example_config "[node_a, node_b\<lparr>Node.Interval := ''''\<rparr>]"
        "network_of (VMap example_overview) example_queues" node_a ParseDuration_60s st0] cfg
  have 1: "updateNodesStats example_config = Inr [node_a, node_b\<lparr>Node.Interval := ''30s''\<rparr>]"
    by (simp add: example_config_def node_a_def node_b_def)
  from effective_interval
    [of example_config "[node_a, node_b\<lparr>Node.Interval := ''''\<rparr>]"
        "network_of (VMap example_overview) example_queues" node_a ParseDuration_60s st0]
    example_cycle_ok pd1
  have 2: "slept (snd (requestData ParseDuration_60s (network_of (VMap example_overview) example_queues) node_a st0))
       = [60000000000]"
    by (simp add: st0_def)
  from effective_interval
    [of example_config "[node_a, node_b\<lparr>Node.Interval := ''''\<rparr>]"
        "network_of (VMap example_overview) example_queues" "node_a\<lparr>Node.Interval := ''soon''\<rparr>"
        ParseDuration_60s st0]
    ok2 pd2
  have 3: "slept (snd (requestData ParseDuration_60s (network_of (VMap example_overview) example_queues)
        (node_a\<lparr>Node.Interval := ''soon''\<rparr>) st0)) = [30000000000]
     \<and> logged (snd (requestData ParseDuration_60s (network_of (VMap example_overview) example_queues)
        (node_a\<lparr>Node.Interval := ''soon''\<rparr>) st0)) = [log_Warn ParseDurationError]"
    by (simp add: st0_def Second_def)
  from cfg 1 example_cycle_ok pd1 2 pd2 ok2 3 show ?thesis by blast
qed

subsection \<open>C7: a later value replaces an earlier one\<close>

text \<open>
  Claim C7. Every write of the program is \<^verbatim>\<open>Set\<close>, for the gauge vectors and the counter
  vectors alike: setting a point to \<open>v1\<close> and then to \<open>v2\<close> leaves \<open>v2\<close>. So when
  the overview mapping runs twice for the same node label, on responses whose field of a
  vector is \<open>v1\<close> and then \<open>v2\<close>, the point holds \<open>v1\<close> after the first run and
  \<open>v2\<close> after the second; likewise for the total of \<^verbatim>\<open>getNumberOfMessages\<close>. The witness
  observes 5 and then 9 and finds 9, not 14.
\<close>

theorem observe_overwrites:
  "WithLabelValues_Set m l v2 (WithLabelValues_Set m l v1 reg) (m, l) = Some v2
   \<and> (getOverview_map r1 st = (Inr (), st1) \<and> getOverview_map r2 st1 = (Inr (), st2)
       \<and> assert_string_ok (index r1 ''node'') = n \<and> assert_string_ok (index r2 ''node'') = n
       \<and> overview_field m = Some (g, f) \<and> field r1 g f = Some v1 \<and> field r2 g f = Some v2
      \<longrightarrow> registry st1 (m, n) = Some v1 \<and> registry st2 (m, n) = Some v2)
   \<and> (getNumberOfMessages_map q1 st = (Inr (), st1') \<and> getNumberOfMessages_map q2 st1' = (Inr (), st2')
       \<and> q1 \<noteq> [] \<and> q2 \<noteq> []
       \<and> index (hd q1) ''node'' = VString n \<and> index (hd q2) ''node'' = VString n
       \<and> sum_messages q1 0 = Inr v1 \<and> sum_messages q2 0 = Inr v2
      \<longrightarrow> registry st1' (messagesTotal, n) = Some v1 \<and> registry st2' (messagesTotal, n) = Some v2)"
proof (intro conjI impI)
  show "WithLabelValues_Set m l v2 (WithLabelValues_Set m l v1 reg) (m, l) = Some v2"
    by (simp add: WithLabelValues_Set_def)
next
  assume a: "getOverview_map r1 st = (Inr (), st1) \<and> getOverview_map r2 st1 = (Inr (), st2)
       \<and> assert_string_ok (index r1 ''node'') = n \<and> assert_string_ok (index r2 ''node'') = n
       \<and> overview_field m = Some (g, f) \<and> field r1 g f = Some v1 \<and> field r2 g f = Some v2"
  then have m: "m \<noteq> messagesTotal" by auto
  from a have 1: "getOverview_map r1 st = (Inr (), st1)" and 2: "getOverview_map r2 st1 = (Inr (), st2)"
    by simp_all
  from getOverview_map_registry [OF 1, of m n] a m show "registry st1 (m, n) = Some v1" by simp
  from getOverview_map_registry [OF 2, of m n] a m show "registry st2 (m, n) = Some v2" by simp
next
  assume a: "getNumberOfMessages_map q1 st = (Inr (), st1') \<and> getNumberOfMessages_map q2 st1' = (Inr (), st2')
       \<and> q1 \<noteq> [] \<and> q2 \<noteq> []
       \<and> index (hd q1) ''node'' = VString n \<and> index (hd q2) ''node'' = VString n
       \<and> sum_messages q1 0 = Inr v1 \<and> sum_messages q2 0 = Inr v2"
  then have q1: "q1 \<noteq> []" "index (hd q1) ''node'' = VString n" "sum_messages q1 0 = Inr v1"
    and q2: "q2 \<noteq> []" "index (hd q2) ''node'' = VString n" "sum_messages q2 0 = Inr v2"
    and r1: "getNumberOfMessages_map q1 st = (Inr (), st1')"
    and r2: "getNumberOfMessages_map q2 st1' = (Inr (), st2')"
    by simp_all
  from getNumberOfMessages_map_total [OF q1, of st] r1
  show "registry st1' (messagesTotal, n) = Some v1" by auto
  from getNumberOfMessages_map_total [OF q2, of st1'] r2
  show "registry st2' (messagesTotal, n) = Some v2" by auto
qed

theorem observe_overwrites_witness:
  "WithLabelValues_Set messagesCounter ''rabbit@a'' 9
     (WithLabelValues_Set messagesCounter ''rabbit@a'' 5 (registry st0)) (messagesCounter, ''rabbit@a'')
     = Some 9
   \<and> kind messagesCounter = CounterVec
   \<and> fst (getOverview_map (overview_with 5) st0) = Inr ()
   \<and> registry (snd (getOverview_map (overview_with 5) st0)) (messagesCounter, ''rabbit@a'') = Some 5
   \<and> registry (snd (getOverview_map (overview_with 9) (snd (getOverview_map (overview_with 5) st0))))
        (messagesCounter, ''rabbit@a'') = Some 9
   \<and> registry (snd (getOverview_map (overview_with 9) (snd (getOverview_map (overview_with 5) st0))))
        (messagesCounter, ''rabbit@a'') \<noteq> Some 14
   \<and> registry (snd (getNumberOfMessages_map (queues_with 9) (snd (getNumberOfMessages_map (queues_with 5) st0))))
        (messagesTotal, ''rabbit@a'') = Some 9"
proof -
  obtain st1 where 1: "getOverview_map (overview_with 5) st0 = (Inr (), st1)"
    using getOverview_map_ok [OF overview_ok_with] by blast
  obtain st2 where 2: "getOverview_map (overview_with 9) st1 = (Inr (), st2)"
    using getOverview_map_ok [OF overview_ok_with] by blast
  have n: "assert_string_ok (index (overview_with x) ''node'') = ''rabbit@a''" for x
    by (simp add: overview_with_def index_def)
  have f: "field (overview_with x) ''queue_totals'' ''messages'' = Some x" for x
    by (simp add: field_def overview_with_def index_def)
  have t: "overview_field messagesCounter = Some (''queue_totals'', ''messages'')"
    by simp
  obtain st1' where 3: "getNumberOfMessages_map (queues_with 5) st0 = (Inr (), st1')"
    by (simp add: getNumberOfMessages_map_def queues_with_def index_def)
  obtain st2' where 4: "getNumberOfMessages_map (queues_with 9) st1' = (Inr (), st2')"
    by (simp add: getNumberOfMessages_map_def queues_with_def index_def)
  have q: "queues_with x \<noteq> []" "index (hd (queues_with x)) ''node'' = VString ''rabbit@a''"
    "sum_messages (queues_with x) 0 = Inr x" for x
    by (simp_all add: queues_with_def index_def)
  from observe_overwrites
    [where m = messagesCounter and l = "''rabbit@a''" and ?v1.0 = 5 and ?v2.0 = 9 and reg = "registry st0"
       and ?r1.0 = "overview_with 5" and ?r2.0 = "overview_with 9" and st = st0 and ?st1.0 = st1
       and ?st2.0 = st2 and n = "''rabbit@a''" and g = "''queue_totals''" and f = "''messages''"
       and ?q1.0 = "queues_with 5" and ?q2.0 = "queues_with 9" and st1' = st1' and st2' = st2']
    1 2 3 4 n f t q
  show ?thesis by simp
qed

subsection \<open>C8: a failing fetch of one node and the other nodes\<close>

text \<open>
  Claim C8 says that a failing fetch in the loop of a node \<open>X\<close> leaves the registry state
  of every other configured node \<open>Y\<close> unaffected. The label of a point is the \<open>node\<close>
  of the response (line 249), not the name of the configured node, which the program
  never reads. When the brokers of two configured nodes report the same node name, an
  iteration of \<open>X\<close> whose queues fetch fails has already set the overview points under
  that name: the value 1 that \<open>Y\<close>'s poll gave \<^verbatim>\<open>channelsTotal\<close> becomes 99.
\<close>

theorem shared_label_counterexample:
  "Node.Name node_x \<noteq> Node.Name node_a
   \<and> Url node_x \<noteq> Url node_a
   \<and> fetch_error (network_shared (Url node_x @ ''/api/queues'') (Uname node_x) (Password node_x))
   \<and> p_registry (snd (poll ParseDuration_60s 1 node_a network_shared P0)) (channelsTotal, ''rabbit@a'')
       = Some 1
   \<and> p_registry (snd (poll ParseDuration_60s 0 node_x network_shared
        (snd (poll ParseDuration_60s 1 node_a network_shared P0)))) (channelsTotal, ''rabbit@a'')
       = Some 99"
proof -
  let ?q1 = "fmap_of_list [(''node'', VString ''rabbit@a''), (''messages'', VFloat64 (3::real))]"
  let ?q2 = "fmap_of_list [(''node'', VString ''rabbit@a''), (''messages'', VFloat64 (7::real))]"
  let ?PY = "snd (poll ParseDuration_60s 1 node_a network_shared P0)"
  let ?stY = "\<lparr>registry = p_registry ?PY, logged = p_logged ?PY, slept = p_slept ?PY 0\<rparr>"
  have names: "Node.Name node_x \<noteq> Node.Name node_a" "Url node_x \<noteq> Url node_a"
    by (simp_all add: node_x_def node_a_def)
  have fe: "fetch_error (network_shared (Url node_x @ ''/api/queues'') (Uname node_x) (Password node_x))"
    by (simp add: network_shared_def node_x_def)
  have ova: "network_shared (Url node_a @ ''/api/overview'') (Uname node_a) (Password node_a)
      = Responds (Document (VMap (overview_with 1)))"
    by (simp add: network_shared_def node_a_def)
  have qsa: "network_shared (Url node_a @ ''/api/queues'') (Uname node_a) (Password node_a)
      = Responds (Document (VSlice (map VMap [?q1, ?q2])))"
    by (simp add: network_shared_def node_a_def example_queues_def)
  have ne: "[?q1, ?q2] \<noteq> []" by simp
  have nq: "index (hd [?q1, ?q2]) ''node'' = VString ''rabbit@a''"
    by (simp add: index_def)
  have ms: "map (\<lambda>q. index q ''messages'') [?q1, ?q2] = map VFloat64 [3, 7]"
    by (simp add: index_def)
  have label: "assert_string_ok (index (overview_with x) ''node'') = ''rabbit@a''" for x
    by (simp add: overview_with_def index_def)
  have fld: "field (overview_with x) ''object_totals'' ''channels'' = Some x" for x
    by (simp add: field_def overview_with_def index_def)
  have t: "overview_field channelsTotal = Some (''object_totals'', ''channels'')" by simp
  from requestData_success(3)
    [where net = network_shared and node = node_a and pd = ParseDuration_60s
       and st = "\<lparr>registry = p_registry P0, logged = p_logged P0, slept = p_slept P0 1\<rparr>",
     OF ova overview_ok_with qsa ne nq ms t]
  have 1: "p_registry ?PY (channelsTotal, ''rabbit@a'') = Some 1"
    by (simp add: poll_registry label fld)
  have ovx: "network_shared (Url node_x @ ''/api/overview'') (Uname node_x) (Password node_x)
      = Responds (Document (VMap (overview_with 99)))"
    by (simp add: network_shared_def node_x_def)
  obtain st1 where m1: "getOverview_map (overview_with 99) ?stY = (Inr (), st1)"
    using getOverview_map_ok [OF overview_ok_with] by blast
  have g1: "getOverview network_shared (Url node_x) (Uname node_x) (Password node_x) ?stY = (Inr (), st1)"
    using getOverview_Document
      [where net = network_shared and h = "Url node_x" and u = "Uname node_x" and p = "Password node_x",
       OF ovx, of ?stY] m1
    by simp
  have qf: "queues_fails (network_shared (Url node_x @ ''/api/queues'') (Uname node_x) (Password node_x))"
    by (simp add: queues_fails_def network_shared_def node_x_def)
  have "registry (snd (requestData ParseDuration_60s network_shared node_x ?stY)) = registry st1"
    using g1 getNumberOfMessages_error_registry
      [where net = network_shared and h = "Url node_x" and u = "Uname node_x" and p = "Password node_x",
       OF qf, of st1]
    by (simp add: requestData_registry)
  moreover from getOverview_map_registry [OF m1, of channelsTotal "''rabbit@a''"]
  have "registry st1 (channelsTotal, ''rabbit@a'') = Some 99"
    by (simp add: label fld)
  ultimately have 2: "p_registry (snd (poll ParseDuration_60s 0 node_x network_shared ?PY))
      (channelsTotal, ''rabbit@a'') = Some 99"
    by (simp add: poll_registry)
  from names fe 1 2 show ?thesis by simp
qed

text \<open>
  Claim C8 as amended, for two goroutines \<open>x\<close> and \<open>y\<close> polling the nodes \<open>X\<close> and \<open>Y\<close>.
  When a fetch of \<open>X\<close> fails (the overview or the queues request), its iteration returns
  normally, sleeps 10 seconds in its own goroutine and leaves \<open>y\<close>'s sleeps as they were;
  it changes no point of \<^verbatim>\<open>messagesTotal\<close> and no point under a label other than the node
  name its own overview reported, and no point at all when it is the overview fetch that
  fails. The next iteration of \<open>Y\<close>, on a well-formed overview and queue array, returns
  normally, sets each overview vector under \<open>Y\<close>'s node name to the value of its field
  and \<^verbatim>\<open>messagesTotal\<close> to the sum of the messages, and sleeps \<open>Y\<close>'s interval. For every
  schedule: it never ends with a panic, the sleeps of each goroutine are those of its own
  iterations, and the iterations whose overview fetch fails can be struck from it without
  changing the registry it ends with.
\<close>

theorem fetch_failure_isolated:
  assumes "x \<noteq> y"
    and "fetch_error (net (Url X @ ''/api/overview'') (Uname X) (Password X))
         \<or> fetch_error (net (Url X @ ''/api/queues'') (Uname X) (Password X))"
    and "net' (Url Y @ ''/api/overview'') (Uname Y) (Password Y) = Responds (Document (VMap response))"
    and "overview_ok response"
    and "net' (Url Y @ ''/api/queues'') (Uname Y) (Password Y)
           = Responds (Document (VSlice (map VMap queues)))"
    and "queues \<noteq> []"
    and "index (hd queues) ''node'' = VString nq"
    and "map (\<lambda>q. index q ''messages'') queues = map VFloat64 xs"
  shows "let PX = snd (poll ParseDuration x X net P);
             PXY = snd (poll ParseDuration y Y net' PX)
         in fst (poll ParseDuration x X net P) = Inr ()
          \<and> fst (poll ParseDuration y Y net' PX) = Inr ()
          \<and> (fetch_error (net (Url X @ ''/api/overview'') (Uname X) (Password X)) \<longrightarrow>
                p_registry PX = p_registry P)
          \<and> (\<forall>m l. l \<noteq> overview_label (net (Url X @ ''/api/overview'') (Uname X) (Password X)) \<longrightarrow>
                p_registry PX (m, l) = p_registry P (m, l))
          \<and> (\<forall>l. p_registry PX (messagesTotal, l) = p_registry P (messagesTotal, l))
          \<and> p_slept PX x = p_slept P x @ [10 * Second]
          \<and> p_slept PX y = p_slept P y
          \<and> p_slept PXY y =
               p_slept P y @ [case ParseDuration (Node.Interval Y) of None \<Rightarrow> 30 * Second | Some dt \<Rightarrow> dt]
          \<and> (\<forall>m g f. overview_field m = Some (g, f) \<longrightarrow>
                p_registry PXY (m, assert_string_ok (index response ''node''))
                  = Some (case field response g f of None \<Rightarrow> 0 | Some v \<Rightarrow> v))
          \<and> p_registry PXY (messagesTotal, nq) = Some (foldl (+) 0 xs)
          \<and> fst (run_schedule ParseDuration sched P) = Inr ()
          \<and> (\<forall>j. p_slept (snd (run_schedule ParseDuration sched P)) j =
                p_slept P j @
                map (\<lambda>(i, node, net). if cycle_fails net node then 10 * Second
                       else case ParseDuration (Node.Interval node) of None \<Rightarrow> 30 * Second | Some dt \<Rightarrow> dt)
                  (filter (\<lambda>(i, node, net). i = j) sched))
          \<and> p_registry (snd (run_schedule ParseDuration sched P)) =
              p_registry (snd (run_schedule ParseDuration
                (filter (\<lambda>(i, node, net).
                   \<not> fetch_error (net (Url node @ ''/api/overview'') (Uname node) (Password node))) sched) P))"
proof -
  let ?PX = "snd (poll ParseDuration x X net P)"
  let ?PXY = "snd (poll ParseDuration y Y net' ?PX)"
  let ?st = "\<lparr>registry = p_registry P, logged = p_logged P, slept = p_slept P x\<rparr>"
  let ?stX = "\<lparr>registry = p_registry ?PX, logged = p_logged ?PX, slept = p_slept ?PX y\<rparr>"
  from assms(2) have fails: "cycle_fails net X"
    by (auto simp: cycle_fails_def fetch_error_overview_fails fetch_error_queues_fails)
  note Y1 = requestData_success(1) [where net = net' and node = Y, OF assms(3-8)]
  note Y2 = requestData_success(2)
      [where net = net' and node = Y and pd = ParseDuration and st = ?stX, OF assms(3-8)]
  note Y3 = requestData_success(3)
      [where net = net' and node = Y and pd = ParseDuration and st = ?stX, OF assms(3-8)]
  have 1: "fst (poll ParseDuration x X net P) = Inr ()"
    by (rule poll_never_panics)
  have 2: "fst (poll ParseDuration y Y net' ?PX) = Inr ()"
    by (rule poll_never_panics)
  have 3: "p_registry ?PX = p_registry P"
    if "fetch_error (net (Url X @ ''/api/overview'') (Uname X) (Password X))"
    using requestData_overview_fetch_error [where net = net and node = X, OF that, of ParseDuration ?st]
    by (simp add: poll_registry)
  have 4: "p_registry ?PX (m, l) = p_registry P (m, l)"
    if "l \<noteq> overview_label (net (Url X @ ''/api/overview'') (Uname X) (Password X))" for m l
    using requestData_error_other_label [where net = net and node = X, OF fails that, of ParseDuration ?st m]
    by (simp add: poll_registry)
  have 5: "p_registry ?PX (messagesTotal, l) = p_registry P (messagesTotal, l)" for l
    using requestData_messagesTotal_error [OF fails, of ParseDuration ?st l]
    by (simp add: poll_registry)
  have 6: "p_slept ?PX x = p_slept P x @ [10 * Second]"
    using fails by (simp add: poll_slept)
  have 7: "p_slept ?PX y = p_slept P y"
    using assms(1) by (simp add: poll_slept)
  have 8: "p_slept ?PXY y =
      p_slept P y @ [case ParseDuration (Node.Interval Y) of None \<Rightarrow> 30 * Second | Some dt \<Rightarrow> dt]"
    using Y1 7 by (simp add: poll_slept)
  have 9: "p_registry ?PXY (m, assert_string_ok (index response ''node''))
                  = Some (case field response g f of None \<Rightarrow> 0 | Some v \<Rightarrow> v)"
    if "overview_field m = Some (g, f)" for m g f
    using Y3 [OF that] by (simp add: poll_registry)
  have 10: "p_registry ?PXY (messagesTotal, nq) = Some (foldl (+) 0 xs)"
    using Y2 by (simp add: poll_registry)
  have 11: "fst (run_schedule ParseDuration sched P) = Inr ()"
    by (rule run_schedule_never_panics)
  have 12: "p_slept (snd (run_schedule ParseDuration sched P)) j =
                p_slept P j @
                map (\<lambda>(i, node, net). if cycle_fails net node then 10 * Second
                       else case ParseDuration (Node.Interval node) of None \<Rightarrow> 30 * Second | Some dt \<Rightarrow> dt)
                  (filter (\<lambda>(i, node, net). i = j) sched)" for j
    by (rule run_schedule_slept)
  have 13: "p_registry (snd (run_schedule ParseDuration sched P)) =
              p_registry (snd (run_schedule ParseDuration
                (filter (\<lambda>(i, node, net).
                   \<not> fetch_error (net (Url node @ ''/api/overview'') (Uname node) (Password node))) sched) P))"
    by (rule run_schedule_drop_failed) simp
  show ?thesis
    unfolding Let_def
    using 1 2 3 4 5 6 7 8 9 10 11 12 13 by blast
qed

theorem fetch_failure_isolated_witness:
  "fetch_error (network_of (VMap example_overview) example_queues
      (Url node_b @ ''/api/overview'') (Uname node_b) (Password node_b))
   \<and> fst (poll ParseDuration_60s 0 node_b (network_of (VMap example_overview) example_queues) P0) = Inr ()
   \<and> p_registry (snd (poll ParseDuration_60s 0 node_b (network_of (VMap example_overview) example_queues) P0))
       = p_registry P0
   \<and> p_slept (snd (poll ParseDuration_60s 0 node_b (network_of (VMap example_overview) example_queues) P0)) 0
       = [10000000000]
   \<and> p_slept (snd (poll ParseDuration_60s 1 node_a (network_of (VMap example_overview) example_queues)
        (snd (poll ParseDuration_60s 0 node_b (network_of (VMap example_overview) example_queues) P0)))) 1
       = [60000000000]
   \<and> p_registry (snd (poll ParseDuration_60s 1 node_a (network_of (VMap example_overview) example_queues)
        (snd (poll ParseDuration_60s 0 node_b (network_of (VMap example_overview) example_queues) P0))))
        (channelsTotal, ''rabbit@a'') = Some 1
   \<and> p_registry (snd (poll ParseDuration_60s 1 node_a (network_of (VMap example_overview) example_queues)
        (snd (poll ParseDuration_60s 0 node_b (network_of (VMap example_overview) example_queues) P0))))
        (messagesTotal, ''rabbit@a'') = Some 10
   \<and> fst (run_schedule ParseDuration_60s
        [(0, node_b, network_of (VMap example_overview) example_queues),
         (1, node_a, network_of (VMap example_overview) example_queues)] P0) = Inr ()"
proof -
  let ?N = "network_of (VMap example_overview) example_queues"
  let ?q1 = "fmap_of_list [(''node'', VString ''rabbit@a''), (''messages'', VFloat64 (3::real))]"
  let ?q2 = "fmap_of_list [(''node'', VString ''rabbit@a''), (''messages'', VFloat64 (7::real))]"
  let ?PX = "snd (poll ParseDuration_60s 0 node_b ?N P0)"
  let ?PXY = "snd (poll ParseDuration_60s 1 node_a ?N ?PX)"
  have xy: "(0::nat) \<noteq> 1" by simp
  have fb: "fetch_error (?N (Url node_b @ ''/api/overview'') (Uname node_b) (Password node_b))"
    by (simp add: network_of_def node_b_def)
  then have fail: "fetch_error (?N (Url node_b @ ''/api/overview'') (Uname node_b) (Password node_b))
      \<or> fetch_error (?N (Url node_b @ ''/api/queues'') (Uname node_b) (Password node_b))"
    by simp
  have ova: "?N (Url node_a @ ''/api/overview'') (Uname node_a) (Password node_a)
      = Responds (Document (VMap example_overview))"
    by (simp add: network_of_def node_a_def)
  have qsa: "?N (Url node_a @ ''/api/queues'') (Uname node_a) (Password node_a)
      = Responds (Document (VSlice (map VMap [?q1, ?q2])))"
    by (simp add: network_of_def node_a_def example_queues_def)
  have ne: "[?q1, ?q2] \<noteq> []" by simp
  have nq: "index (hd [?q1, ?q2]) ''node'' = VString ''rabbit@a''"
    by (simp add: index_def)
  have ms: "map (\<lambda>q. index q ''messages'') [?q1, ?q2] = map VFloat64 [3, 7]"
    by (simp add: index_def)
  note inst = fetch_failure_isolated
    [where x = 0 and y = 1 and X = node_b and Y = node_a and net = ?N and net' = ?N
       and ParseDuration = ParseDuration_60s and P = P0
       and sched = "[(0, node_b, ?N), (1, node_a, ?N)]",
     OF xy fail ova example_overview_ok qsa ne nq ms, unfolded Let_def]
  from inst have 1: "fst (poll ParseDuration_60s 0 node_b ?N P0) = Inr ()" by blast
  from inst fb have 2: "p_registry ?PX = p_registry P0" by blast
  from inst have "p_slept ?PX 0 = p_slept P0 0 @ [10 * Second]" by blast
  then have 3: "p_slept ?PX 0 = [10000000000]" by (simp add: P0_def Second_def)
  from inst have "p_slept ?PXY 1 =
      p_slept P0 1 @ [case ParseDuration_60s (Node.Interval node_a) of None \<Rightarrow> 30 * Second | Some dt \<Rightarrow> dt]"
    by blast
  then have 4: "p_slept ?PXY 1 = [60000000000]"
    by (simp add: P0_def Second_def ParseDuration_60s_def node_a_def)
  from inst have all: "\<forall>m g f. overview_field m = Some (g, f) \<longrightarrow>
      p_registry ?PXY (m, assert_string_ok (index example_overview ''node''))
        = Some (case field example_overview g f of None \<Rightarrow> 0 | Some v \<Rightarrow> v)"
    by blast
  have t: "overview_field channelsTotal = Some (''object_totals'', ''channels'')" by simp
  from all t have "p_registry ?PXY (channelsTotal, assert_string_ok (index example_overview ''node''))
        = Some (case field example_overview ''object_totals'' ''channels'' of None \<Rightarrow> 0 | Some v \<Rightarrow> v)"
    by blast
  then have 5: "p_registry ?PXY (channelsTotal, ''rabbit@a'') = Some 1"
    by (simp add: field_def example_overview_def index_def)
  from inst have "p_registry ?PXY (messagesTotal, ''rabbit@a'') = Some (foldl (+) 0 [3, 7])" by blast
  then have 6: "p_registry ?PXY (messagesTotal, ''rabbit@a'') = Some 10" by simp
  from inst have 7: "fst (run_schedule ParseDuration_60s [(0, node_b, ?N), (1, node_a, ?N)] P0) = Inr ()"
    by blast
  from fb 1 2 3 4 5 6 7 show ?thesis by blast
qed

subsection \<open>C9: a malformed group fails the overview mapping before any write\<close>

text \<open>
  Claim C9. In \<^verbatim>\<open>getOverview\<close> the three groups are extracted (lines 228--247) before the
  first \<^verbatim>\<open>Set\<close> (line 251). So when the decoded overview has a group missing, a group
  that is not an object, or a value in \<open>object_totals\<close> that is not a number (that is,
  when \<open>overview_ok\<close> fails), \<^verbatim>\<open>getOverview\<close> panics and leaves the whole state, the
  registry in particular, as it was: no subset of the overview metrics is written.
\<close>

theorem overview_shape_error_writes_nothing:
  assumes "net (h @ ''/api/overview'') u p = Responds (Document (VMap response))"
    and "\<not> overview_ok response"
  shows "getOverview net h u p st = (Inl (RuntimeError InterfaceConversion), st)"
proof -
  obtain r st1 where eq: "getOverview_map response st = (r, st1)"
    by (cases "getOverview_map response st")
  with assms(2) have "r \<noteq> Inr ()"
    using getOverview_map_ok_iff [of response st] by auto
  then obtain e where r: "r = Inl e" by (cases r) auto
  with eq have st1: "st1 = st" by (auto dest: getOverview_map_panic)
  from eq r have "e = RuntimeError InterfaceConversion"
    by (auto simp: getOverview_map_def range_assert_def Let_def
        split: sum.splits if_splits dest: assert_map_Inl)
  with eq r st1 assms(1) show ?thesis
    by (simp add: getOverview_Document)
qed

theorem overview_shape_error_writes_nothing_witness:
  "network_of (VMap overview_bad) example_queues (''http://a'' @ ''/api/overview'') ''guest'' ''guest''
     = Responds (Document (VMap overview_bad))
   \<and> \<not> overview_ok overview_bad
   \<and> getOverview (network_of (VMap overview_bad) example_queues) ''http://a'' ''guest'' ''guest'' st0
       = (Inl (RuntimeError InterfaceConversion), st0)"
proof -
  have bad: "\<not> overview_ok overview_bad"
    by (simp add: overview_ok_def overview_bad_def index_def fmpred_fmupd_eval)
  have net: "network_of (VMap overview_bad) example_queues (''http://a'' @ ''/api/overview'') ''guest'' ''guest''
      = Responds (Document (VMap overview_bad))"
    by (simp add: network_of_def)
  from overview_shape_error_writes_nothing
    [where net = "network_of (VMap overview_bad) example_queues" and h = "''http://a''"
       and u = "''guest''" and p = "''guest''" and st = st0, OF net bad] bad net
  show ?thesis by simp
qed

subsection \<open>C10: an overview without a node name\<close>

text \<open>
  Claim C10. Line 249 uses the two-result type assertion, so when \<open>node\<close> is missing or
  is not a string (and the three groups are well-formed) \<^verbatim>\<open>getOverview\<close> does not fail:
  the label is the empty string, and each of the fifteen vectors is set under it, to the
  value of its field (0.0 where the field is missing).
\<close>

theorem overview_without_node_label:
  assumes "net (h @ ''/api/overview'') u p = Responds (Document (VMap response))"
    and "overview_ok response"
    and "\<forall>s. index response ''node'' \<noteq> VString s"
  shows "\<exists>st'. getOverview net h u p st = (Inr (), st')
           \<and> (\<forall>m g f. overview_field m = Some (g, f) \<longrightarrow>
                registry st' (m, '''') = Some (case field response g f of None \<Rightarrow> 0 | Some x \<Rightarrow> x))"
proof -
  from assms(2) obtain st' where ok: "getOverview_map response st = (Inr (), st')"
    using getOverview_map_ok by blast
  from assms(3) have label: "assert_string_ok (index response ''node'') = ''''"
    by (rule assert_string_ok_other)
  have "registry st' (m, '''') = Some (case field response g f of None \<Rightarrow> 0 | Some x \<Rightarrow> x)"
    if "overview_field m = Some (g, f)" for m g f
  proof -
    from that have "m \<noteq> messagesTotal" by auto
    with getOverview_map_registry [OF ok, of m "''''"] label that show ?thesis by simp
  qed
  with ok assms(1) show ?thesis
    by (simp add: getOverview_Document)
qed

theorem overview_without_node_label_witness:
  "(\<forall>s. index overview_unnamed ''node'' \<noteq> VString s)
   \<and> (\<exists>st'. getOverview (network_of (VMap overview_unnamed) example_queues) ''http://a'' ''guest'' ''guest'' st0
              = (Inr (), st')
           \<and> registry st' (channelsTotal, '''') = Some 1
           \<and> registry st' (messagesCounter, '''') = Some 0)"
proof -
  have net: "network_of (VMap overview_unnamed) example_queues (''http://a'' @ ''/api/overview'') ''guest'' ''guest''
      = Responds (Document (VMap overview_unnamed))"
    by (simp add: network_of_def)
  have ok: "overview_ok overview_unnamed"
    by (simp add: overview_ok_def overview_unnamed_def index_def fmpred_fmupd_eval)
  have node: "\<forall>s. index overview_unnamed ''node'' \<noteq> VString s"
    by (simp add: overview_unnamed_def index_def)
  have f1: "field overview_unnamed ''object_totals'' ''channels'' = Some 1"
    by (simp add: field_def overview_unnamed_def index_def)
  have f2: "field overview_unnamed ''queue_totals'' ''messages'' = None"
    by (simp add: field_def overview_unnamed_def index_def)
  from overview_without_node_label
    [where net = "network_of (VMap overview_unnamed) example_queues" and h = "''http://a''"
       and u = "''guest''" and p = "''guest''" and st = st0, OF net ok node]
  obtain st' where st': "getOverview (network_of (VMap overview_unnamed) example_queues)
        ''http://a'' ''guest'' ''guest'' st0 = (Inr (), st')"
    and all: "\<forall>m g f. overview_field m = Some (g, f) \<longrightarrow>
        registry st' (m, '''') = Some (case field overview_unnamed g f of None \<Rightarrow> 0 | Some x \<Rightarrow> x)"
    by blast
  have t1: "overview_field channelsTotal = Some (''object_totals'', ''channels'')" by simp
  have t2: "overview_field messagesCounter = Some (''queue_totals'', ''messages'')" by simp
  from all t1 have "registry st' (channelsTotal, '''')
      = Some (case field overview_unnamed ''object_totals'' ''channels'' of None \<Rightarrow> 0 | Some x \<Rightarrow> x)"
    by blast
  with f1 have r1: "registry st' (channelsTotal, '''') = Some 1" by simp
  from all t2 have "registry st' (messagesCounter, '''')
      = Some (case field overview_unnamed ''queue_totals'' ''messages'' of None \<Rightarrow> 0 | Some x \<Rightarrow> x)"
    by blast
  with f2 have r2: "registry st' (messagesCounter, '''') = Some 0" by simp
  from st' node r1 r2 show ?thesis by blast
qed

end
